theory Spec2Isabelle
  imports Main "HOL-Library.Word"
begin

section \<open>Data model\<close>

text \<open>
  Go's \<open>int\<close> and \<open>int64\<close> are 64-bit two's complement integers on the platforms the
  autoscaler is built for: addition wraps, comparisons are signed.
\<close>

type_synonym int64 = "64 word"

text \<open>\<open>AwsRef\<close> is the cache key: two references are equal iff both fields are.\<close>

record AwsRef =
  Zone :: string
  Name :: string

text \<open>
  \<open>Asg\<close> embeds \<open>AwsRef\<close>. The code handles groups through \<open>*Asg\<close> and compares these
  pointers in \<open>DeleteInstances\<close>, so every group object carries its address \<open>addr\<close>;
  the fields are never written after \<open>buildAsg\<close>. The back pointer \<open>awsManager\<close> is the
  manager state that every operation below takes as an argument.
\<close>

record Asg = AwsRef +
  addr :: nat
  minSize :: int64
  maxSize :: int64

text \<open>The two fields of \<open>kube_api.Node\<close> the code reads: \<open>Name\<close> and \<open>Spec.ProviderID\<close>.\<close>

record Node =
  NodeName :: string
  ProviderID :: string

record asgInformation =
  config :: Asg
  basename :: string

text \<open>
  Every error value the code builds with \<open>fmt.Errorf\<close> is a constructor carrying the
  values formatted into the message. \<open>BackendError\<close> is an error returned by a call to
  the cloud service or to an outside collaborator, \<open>RuntimePanic\<close> a Go run-time panic
  (slice bounds out of range, index out of range, nil dereference).
\<close>

datatype error =
    BackendError string
  | RuntimePanic
  | WrongId string
  | SizeIncreaseMustBePositive
  | SizeIncreaseTooLarge int64 int64
  | NotKnownAsg string
  | MinSizeReached
  | BelongsToDifferentAsg string string
  | NotSameAsg
  | LookupFailed AwsRef error
  | NotInAnyConfiguredAsg AwsRef
  | WrongNodesConfiguration string
  | MinSizeMustBePositive
  | FailedToSetMinSize string
  | MaxSizeLessThanMinSize
  | FailedToSetMaxSize string
  | FailedToParseAsgUrl string string
  | AtoiSyntax
  | AtoiRange
  | FailedToGetNodeGroups error
  | ErrorGettingNodeGroupSize error
  | FailedToGetMigSize error
  | FailedToSetMigSize error

section \<open>The strings and strconv functions the code calls\<close>

text \<open>\<open>cut c s\<close> splits \<open>s\<close> at the first occurrence of \<open>c\<close>, if there is one.\<close>

fun cut :: "char \<Rightarrow> string \<Rightarrow> (string \<times> string) option" where
  "cut c [] = None"
| "cut c (x # xs) =
     (if x = c then Some ([], xs)
      else (case cut c xs of None \<Rightarrow> None | Some (a, b) \<Rightarrow> Some (x # a, b)))"

text \<open>
  \<open>strings.SplitN(s, sep, n)\<close> for a one-byte separator and \<open>n \<ge> 0\<close>: no substring for
  \<open>n = 0\<close>, otherwise at most \<open>n\<close> substrings, the last one the unsplit remainder.
\<close>

fun SplitN :: "string \<Rightarrow> char \<Rightarrow> nat \<Rightarrow> string list" where
  "SplitN s c 0 = []"
| "SplitN s c (Suc 0) = [s]"
| "SplitN s c (Suc (Suc n)) =
     (case cut c s of None \<Rightarrow> [s] | Some (a, b) \<Rightarrow> a # SplitN b c (Suc n))"

text \<open>\<open>strings.Split(s, sep)\<close> is \<open>SplitN\<close> with \<open>n = Count(s, sep) + 1\<close>.\<close>

definition Split :: "string \<Rightarrow> char \<Rightarrow> string list" where
  "Split s c = SplitN s c (Suc (count_list s c))"

definition is_digit :: "char \<Rightarrow> bool" where
  "is_digit ch = (48 \<le> (of_char ch :: nat) \<and> (of_char ch :: nat) \<le> 57)"

definition digit_val :: "char \<Rightarrow> int" where
  "digit_val ch = int (of_char ch :: nat) - 48"

definition decimal :: "string \<Rightarrow> int" where
  "decimal ds = foldl (\<lambda>n ch. n * 10 + digit_val ch) 0 ds"

text \<open>
  \<open>strconv.Atoi\<close>: an optional sign, then one or more decimal digits, and the value must
  fit a 64-bit \<open>int\<close>; a syntax error or a range error otherwise.
\<close>

definition Atoi :: "string \<Rightarrow> error + int64" where
  "Atoi s =
     (let neg = (case s of [] \<Rightarrow> False | ch # _ \<Rightarrow> ch = CHR ''-'');
          ds = (case s of [] \<Rightarrow> [] | ch # r \<Rightarrow> if ch = CHR ''-'' \<or> ch = CHR ''+'' then r else s)
      in if ds = [] \<or> \<not> list_all is_digit ds then Inl AtoiSyntax
         else let v = (if neg then - decimal ds else decimal ds)
              in if v < - (2 ^ 63) \<or> 2 ^ 63 - 1 < v then Inl AtoiRange
                 else Inr (word_of_int v))"

section \<open>Resource identity parsing\<close>

text \<open>
  \<open>AwsRefFromProviderId\<close>. The slice expression \<open>id[6:]\<close> panics when the string has
  fewer than six bytes.
\<close>

definition AwsRefFromProviderId :: "string \<Rightarrow> error + AwsRef" where
  "AwsRefFromProviderId ident =
     (if length ident < 6 then Inl RuntimePanic
      else (case Split (drop 6 ident) CHR ''/'' of
              [z, n] \<Rightarrow> Inr \<lparr>Zone = z, Name = n\<rparr>
            | _ \<Rightarrow> Inl (WrongId ident)))"

section \<open>The AWS autoscaling service\<close>

text \<open>
  The four requests the manager sends. Each is sent for one name (the group's or the
  instance's), with the constant settings of the source (\<open>MaxRecords = 1\<close>,
  \<open>HonorCooldown = false\<close>, \<open>ShouldDecrementDesiredCapacity = true\<close>).
\<close>

datatype aws_call =
    DescribeAutoScalingGroups string
  | SetDesiredCapacity string int64
  | TerminateInstanceInAutoScalingGroup string
  | DescribeAutoScalingInstances string

text \<open>
  What the responses hold, as far as the code reads them. The SDK's fields are pointers:
  \<open>None\<close> is a nil pointer. \<open>Instances\<close> lists the \<open>InstanceId\<close> of every member.
\<close>

record Group =
  DesiredCapacity :: "int64 option"
  Instances :: "string option list"

record InstanceDetails =
  AvailabilityZone :: "string option"

text \<open>
  The service is outside the program. It answers every request as a function of the
  requests received so far, which covers a service that fails now and then and one whose
  state the requests change. \<open>Inl msg\<close> and \<open>Some msg\<close> are the error the SDK returns.
\<close>

record AutoScaling =
  describeGroups :: "aws_call list \<Rightarrow> string \<Rightarrow> string + Group list"
  setCapacity :: "aws_call list \<Rightarrow> string \<Rightarrow> int64 \<Rightarrow> string option"
  terminateInstance :: "aws_call list \<Rightarrow> string \<Rightarrow> string option"
  describeInstances :: "aws_call list \<Rightarrow> string \<Rightarrow> string + InstanceDetails list"

text \<open>
  The manager: the registered groups, the membership cache, and the requests sent to the
  service so far (the state of \<open>m.service\<close>). The mutex is held by every operation that
  touches the cache, so the operations below run one at a time.
\<close>

record AwsManager =
  asgs :: "asgInformation list"
  asgCache :: "AwsRef \<rightharpoonup> Asg"
  calls :: "aws_call list"

definition sent :: "AwsManager \<Rightarrow> aws_call \<Rightarrow> AwsManager" where
  "sent m c = m\<lparr>calls := calls m @ [c]\<rparr>"

definition RegisterAsg :: "AwsManager \<Rightarrow> Asg \<Rightarrow> AwsManager" where
  "RegisterAsg m asg = m\<lparr>asgs := asgs m @ [\<lparr>config = asg, basename = []\<rparr>]\<rparr>"

definition GetAsgSize :: "AutoScaling \<Rightarrow> AwsManager \<Rightarrow> Asg \<Rightarrow> (error + int64) \<times> AwsManager" where
  "GetAsgSize S m asgConfig =
     (let m' = sent m (DescribeAutoScalingGroups (Name asgConfig))
      in (case describeGroups S (calls m) (Name asgConfig) of
            Inl e \<Rightarrow> (Inl (BackendError e), m')
          | Inr [] \<Rightarrow> (Inl RuntimePanic, m')
          | Inr (g # _) \<Rightarrow>
              (case DesiredCapacity g of
                 None \<Rightarrow> (Inl RuntimePanic, m')
               | Some d \<Rightarrow> (Inr d, m'))))"

definition SetAsgSize :: "AutoScaling \<Rightarrow> AwsManager \<Rightarrow> Asg \<Rightarrow> int64 \<Rightarrow> error option \<times> AwsManager" where
  "SetAsgSize S m asg sz =
     (case setCapacity S (calls m) (Name asg) sz of
        Some e \<Rightarrow> (Some (BackendError e), sent m (SetDesiredCapacity (Name asg) sz))
      | None \<Rightarrow> (None, sent m (SetDesiredCapacity (Name asg) sz)))"

subsection \<open>Rebuilding the cache\<close>

text \<open>The inner loop of \<open>regenerateCache\<close>, over the instances of one group.\<close>

fun regenerate_instances ::
  "AutoScaling \<Rightarrow> Asg \<Rightarrow> string option list \<Rightarrow> (AwsRef \<rightharpoonup> Asg) \<Rightarrow> AwsManager
     \<Rightarrow> (error + (AwsRef \<rightharpoonup> Asg)) \<times> AwsManager" where
  "regenerate_instances S cfg [] newCache m = (Inr newCache, m)"
| "regenerate_instances S cfg (inst # insts) newCache m =
     (case inst of
        None \<Rightarrow> (Inl RuntimePanic, m)
      | Some ident \<Rightarrow>
          (let m' = sent m (DescribeAutoScalingInstances ident)
           in (case describeInstances S (calls m) ident of
                 Inl e \<Rightarrow> (Inl (BackendError e), m')
               | Inr [] \<Rightarrow> (Inl RuntimePanic, m')
               | Inr (details # _) \<Rightarrow>
                   (case AvailabilityZone details of
                      None \<Rightarrow> (Inl RuntimePanic, m')
                    | Some z \<Rightarrow>
                        regenerate_instances S cfg insts
                          (newCache(\<lparr>Zone = z, Name = ident\<rparr> \<mapsto> cfg)) m'))))"

text \<open>The outer loop, over the registered groups.\<close>

fun regenerate_groups ::
  "AutoScaling \<Rightarrow> asgInformation list \<Rightarrow> (AwsRef \<rightharpoonup> Asg) \<Rightarrow> AwsManager
     \<Rightarrow> (error + (AwsRef \<rightharpoonup> Asg)) \<times> AwsManager" where
  "regenerate_groups S [] newCache m = (Inr newCache, m)"
| "regenerate_groups S (asg # rest) newCache m =
     (let m' = sent m (DescribeAutoScalingGroups (basename asg))
      in (case describeGroups S (calls m) (basename asg) of
            Inl e \<Rightarrow> (Inl (BackendError e), m')
          | Inr [] \<Rightarrow> (Inl RuntimePanic, m')
          | Inr (grp # _) \<Rightarrow>
              (case regenerate_instances S (config asg) (Instances grp) newCache m' of
                 (Inl e, m'') \<Rightarrow> (Inl e, m'')
               | (Inr newCache', m'') \<Rightarrow> regenerate_groups S rest newCache' m'')))"

definition regenerateCache :: "AutoScaling \<Rightarrow> AwsManager \<Rightarrow> (error + unit) \<times> AwsManager" where
  "regenerateCache S m =
     (case regenerate_groups S (asgs m) Map.empty m of
        (Inl e, m') \<Rightarrow> (Inl e, m')
      | (Inr newCache, m') \<Rightarrow> (Inr (), m'\<lparr>asgCache := newCache\<rparr>))"

text \<open>The background refresh logs the error and drops it.\<close>

definition regenerateCacheIgnoreError :: "AutoScaling \<Rightarrow> AwsManager \<Rightarrow> AwsManager" where
  "regenerateCacheIgnoreError S m = snd (regenerateCache S m)"

subsection \<open>Lookup\<close>

text \<open>
  The loop of \<open>GetAsgForInstance\<close> after a cache miss: the first registered group in the
  instance's zone triggers one refresh and ends the lookup. An error returned by the
  refresh is wrapped by \<open>fmt.Errorf\<close>; a panic in the refresh is not a returned value and
  passes through as it is.
\<close>

fun lookup_after_miss ::
  "AutoScaling \<Rightarrow> AwsManager \<Rightarrow> AwsRef \<Rightarrow> asgInformation list
     \<Rightarrow> (error + Asg option) \<times> AwsManager" where
  "lookup_after_miss S m instance [] = (Inr None, m)"
| "lookup_after_miss S m instance (asg # rest) =
     (if Zone (config asg) = Zone instance then
        (case regenerateCache S m of
           (Inl e, m') \<Rightarrow>
             (Inl (if e = RuntimePanic then RuntimePanic else LookupFailed instance e), m')
         | (Inr _, m') \<Rightarrow>
             (case asgCache m' instance of
                Some cfg \<Rightarrow> (Inr (Some cfg), m')
              | None \<Rightarrow> (Inl (NotInAnyConfiguredAsg instance), m')))
      else lookup_after_miss S m instance rest)"

definition GetAsgForInstance ::
  "AutoScaling \<Rightarrow> AwsManager \<Rightarrow> AwsRef \<Rightarrow> (error + Asg option) \<times> AwsManager" where
  "GetAsgForInstance S m instance =
     (case asgCache m instance of
        Some cfg \<Rightarrow> (Inr (Some cfg), m)
      | None \<Rightarrow> lookup_after_miss S m instance (asgs m))"

subsection \<open>Deleting instances\<close>

text \<open>The first loop of \<open>DeleteInstances\<close>: every instance must resolve to \<open>commonAsg\<close>.\<close>

fun check_common ::
  "AutoScaling \<Rightarrow> AwsManager \<Rightarrow> Asg option \<Rightarrow> AwsRef list \<Rightarrow> error option \<times> AwsManager" where
  "check_common S m commonAsg [] = (None, m)"
| "check_common S m commonAsg (instance # rest) =
     (case GetAsgForInstance S m instance of
        (Inl e, m') \<Rightarrow> (Some e, m')
      | (Inr asg, m') \<Rightarrow>
          (if map_option addr asg \<noteq> map_option addr commonAsg then (Some NotSameAsg, m')
           else check_common S m' commonAsg rest))"

text \<open>The second loop: one termination request per instance, until one fails.\<close>

fun terminate_all ::
  "AutoScaling \<Rightarrow> AwsManager \<Rightarrow> AwsRef list \<Rightarrow> error option \<times> AwsManager" where
  "terminate_all S m [] = (None, m)"
| "terminate_all S m (instance # rest) =
     (case terminateInstance S (calls m) (Name instance) of
        Some e \<Rightarrow>
          (Some (BackendError e), sent m (TerminateInstanceInAutoScalingGroup (Name instance)))
      | None \<Rightarrow>
          terminate_all S (sent m (TerminateInstanceInAutoScalingGroup (Name instance))) rest)"

definition DeleteInstances ::
  "AutoScaling \<Rightarrow> AwsManager \<Rightarrow> AwsRef list \<Rightarrow> error option \<times> AwsManager" where
  "DeleteInstances S m instances =
     (case instances of
        [] \<Rightarrow> (None, m)
      | first # _ \<Rightarrow>
          (case GetAsgForInstance S m first of
             (Inl e, m') \<Rightarrow> (Some e, m')
           | (Inr commonAsg, m') \<Rightarrow>
               (case check_common S m' commonAsg instances of
                  (Some e, m'') \<Rightarrow> (Some e, m'')
                | (None, m'') \<Rightarrow> terminate_all S m'' instances)))"

section \<open>The node group \<open>Asg\<close>\<close>

text \<open>
  \<open>GenerateAsgUrl\<close> and \<open>ParseAsgUrl\<close> belong to the package but their file is not part
  of the sources at hand: both are parameters, \<open>url\<close> and \<open>parseUrl\<close>, the second
  returning the parsed zone and name or the message of its error.
\<close>

definition Id :: "(string \<Rightarrow> string \<Rightarrow> string) \<Rightarrow> Asg \<Rightarrow> string" where
  "Id url asg = url (Zone asg) (Name asg)"

definition MaxSize :: "Asg \<Rightarrow> int64" where
  "MaxSize asg = maxSize asg"

definition MinSize :: "Asg \<Rightarrow> int64" where
  "MinSize asg = minSize asg"

definition IncreaseSize ::
  "AutoScaling \<Rightarrow> AwsManager \<Rightarrow> Asg \<Rightarrow> int64 \<Rightarrow> error option \<times> AwsManager" where
  "IncreaseSize S m asg delta =
     (if delta \<le>s 0 then (Some SizeIncreaseMustBePositive, m)
      else (case GetAsgSize S m asg of
              (Inl e, m') \<Rightarrow> (Some e, m')
            | (Inr sz, m') \<Rightarrow>
                (if MaxSize asg <s sz + delta
                 then (Some (SizeIncreaseTooLarge (sz + delta) (MaxSize asg)), m')
                 else SetAsgSize S m' asg (sz + delta))))"

definition Belongs ::
  "(string \<Rightarrow> string \<Rightarrow> string) \<Rightarrow> AutoScaling \<Rightarrow> AwsManager \<Rightarrow> Asg \<Rightarrow> Node
     \<Rightarrow> (error + bool) \<times> AwsManager" where
  "Belongs url S m asg node =
     (case AwsRefFromProviderId (ProviderID node) of
        Inl e \<Rightarrow> (Inl e, m)
      | Inr ref \<Rightarrow>
          (case GetAsgForInstance S m ref of
             (Inl e, m') \<Rightarrow> (Inl e, m')
           | (Inr None, m') \<Rightarrow> (Inl (NotKnownAsg (NodeName node)), m')
           | (Inr (Some targetAsg), m') \<Rightarrow>
               (if Id url targetAsg \<noteq> Id url asg then (Inr False, m') else (Inr True, m'))))"

text \<open>The loop of \<open>DeleteNodes\<close>, collecting \<open>refs\<close>.\<close>

fun collect_refs ::
  "(string \<Rightarrow> string \<Rightarrow> string) \<Rightarrow> AutoScaling \<Rightarrow> AwsManager \<Rightarrow> Asg \<Rightarrow> Node list
     \<Rightarrow> AwsRef list \<Rightarrow> (error + AwsRef list) \<times> AwsManager" where
  "collect_refs url S m asg [] refs = (Inr refs, m)"
| "collect_refs url S m asg (node # rest) refs =
     (case Belongs url S m asg node of
        (Inl e, m') \<Rightarrow> (Inl e, m')
      | (Inr belongs, m') \<Rightarrow>
          (if belongs then (Inl (BelongsToDifferentAsg (NodeName node) (Id url asg)), m')
           else (case AwsRefFromProviderId (ProviderID node) of
                   Inl e \<Rightarrow> (Inl e, m')
                 | Inr awsref \<Rightarrow> collect_refs url S m' asg rest (refs @ [awsref]))))"

definition DeleteNodes ::
  "(string \<Rightarrow> string \<Rightarrow> string) \<Rightarrow> AutoScaling \<Rightarrow> AwsManager \<Rightarrow> Asg \<Rightarrow> Node list
     \<Rightarrow> error option \<times> AwsManager" where
  "DeleteNodes url S m asg nodes =
     (case GetAsgSize S m asg of
        (Inl e, m') \<Rightarrow> (Some e, m')
      | (Inr sz, m') \<Rightarrow>
          (if sz \<le>s MinSize asg then (Some MinSizeReached, m')
           else (case collect_refs url S m' asg nodes [] of
                   (Inl e, m'') \<Rightarrow> (Some e, m'')
                 | (Inr refs, m'') \<Rightarrow> DeleteInstances S m'' refs)))"

text \<open>
  \<open>buildAsg\<close>. The new group object is allocated at the fresh address \<open>a\<close>.
\<close>

definition buildAsg ::
  "(string \<Rightarrow> string + string \<times> string) \<Rightarrow> nat \<Rightarrow> string \<Rightarrow> error + Asg" where
  "buildAsg parseUrl a val =
     (case SplitN val CHR '':'' 3 of
        [t0, t1, t2] \<Rightarrow>
          (case Atoi t0 of
             Inl _ \<Rightarrow> Inl (FailedToSetMinSize t0)
           | Inr mn \<Rightarrow>
               (if mn \<le>s 0 then Inl MinSizeMustBePositive
                else (case Atoi t1 of
                        Inl _ \<Rightarrow> Inl (FailedToSetMaxSize t1)
                      | Inr mx \<Rightarrow>
                          (if mx <s mn then Inl MaxSizeLessThanMinSize
                           else (case parseUrl t2 of
                                   Inl e \<Rightarrow> Inl (FailedToParseAsgUrl t2 e)
                                 | Inr (z, n) \<Rightarrow>
                                     Inr \<lparr>Zone = z, Name = n, addr = a,
                                          minSize = mn, maxSize = mx\<rparr>)))))
      | _ \<Rightarrow> Inl (WrongNodesConfiguration val))"

section \<open>The GCE node group\<close>

text \<open>
  \<open>config.MigConfig\<close> and the \<open>GceManager\<close> are declared outside the sources at hand.
  Of the first the code reads \<open>MinSize\<close>, \<open>MaxSize\<close> and \<open>Url()\<close>; the second is, like
  the AWS service, a function of the requests it has received so far.
\<close>

record MigConfig =
  Url_mig :: string
  MinSize_mig :: int64
  MaxSize_mig :: int64

datatype gce_call =
    GetMigSize MigConfig
  | SetMigSize MigConfig int64

record GceManager =
  getMigSize :: "gce_call list \<Rightarrow> MigConfig \<Rightarrow> string + int64"
  setMigSize :: "gce_call list \<Rightarrow> MigConfig \<Rightarrow> int64 \<Rightarrow> string option"

record gceNodeGroup =
  migConfig :: MigConfig
  sampleNode :: Node

definition IsScaleUpPossible ::
  "GceManager \<Rightarrow> gceNodeGroup \<Rightarrow> gce_call list \<Rightarrow> (error + bool) \<times> gce_call list" where
  "IsScaleUpPossible M g h =
     (case getMigSize M h (migConfig g) of
        Inl e \<Rightarrow> (Inl (BackendError e), h @ [GetMigSize (migConfig g)])
      | Inr currentSize \<Rightarrow>
          (if MaxSize_mig (migConfig g) \<le>s currentSize
           then (Inr False, h @ [GetMigSize (migConfig g)])
           else (Inr True, h @ [GetMigSize (migConfig g)])))"

definition GetSampleNode :: "gceNodeGroup \<Rightarrow> Node" where
  "GetSampleNode g = sampleNode g"

definition capped :: "gceNodeGroup \<Rightarrow> int64 \<Rightarrow> int64" where
  "capped g sz = (if MaxSize_mig (migConfig g) \<le>s sz then MaxSize_mig (migConfig g) else sz)"

definition SetSize ::
  "GceManager \<Rightarrow> gceNodeGroup \<Rightarrow> int64 \<Rightarrow> gce_call list \<Rightarrow> error option \<times> gce_call list" where
  "SetSize M g sz h =
     (case setMigSize M h (migConfig g) (capped g sz) of
        Some e \<Rightarrow>
          (Some (FailedToSetMigSize (BackendError e)), h @ [SetMigSize (migConfig g) (capped g sz)])
      | None \<Rightarrow> (None, h @ [SetMigSize (migConfig g) (capped g sz)]))"

definition GetCurrentSize ::
  "GceManager \<Rightarrow> gceNodeGroup \<Rightarrow> gce_call list \<Rightarrow> (error + int64) \<times> gce_call list" where
  "GetCurrentSize M g h =
     (case getMigSize M h (migConfig g) of
        Inl e \<Rightarrow> (Inl (FailedToGetMigSize (BackendError e)), h @ [GetMigSize (migConfig g)])
      | Inr currentSize \<Rightarrow> (Inr currentSize, h @ [GetMigSize (migConfig g)]))"

section \<open>The scale-up engine\<close>

record 'e ExpansionOption =
  nodeGroup :: gceNodeGroup
  estimator :: 'e

text \<open>
  What \<open>ScaleUp\<close> calls outside the sources at hand, as parameters: the provider's
  \<open>GetNodeGroups\<close>, the simulator (\<open>BuildNodeInfoForNode\<close>, \<open>nodeInfo.Node()\<close> and
  \<open>CheckPredicates\<close>), the estimator of type \<open>'e\<close> with its operations, and
  \<open>BestExpansionOption\<close>. Pods are values of type \<open>'p\<close>, node infos of type \<open>'ni\<close>.
\<close>

record ('p, 'ni, 'e) collaborators =
  GetNodeGroups :: "Node list \<Rightarrow> string + gceNodeGroup list"
  BuildNodeInfoForNode :: "Node \<Rightarrow> string + 'ni"
  nodeOf :: "'ni \<Rightarrow> Node"
  CheckPredicates :: "'p \<Rightarrow> 'ni \<Rightarrow> string option"
  NewBasicNodeEstimator :: "'e"
  Add :: "'e \<Rightarrow> 'p \<Rightarrow> 'e"
  GetCount :: "'e \<Rightarrow> int64"
  Estimate :: "'e \<Rightarrow> Node \<Rightarrow> int64 \<times> string"
  FittingPods :: "'e \<Rightarrow> 'p set"
  BestExpansionOption :: "'e ExpansionOption list \<Rightarrow> 'e ExpansionOption option"

text \<open>
  The events given to the recorder. Both loops that emit them range over a Go map, in no
  fixed order, so the events of a cycle are a set.
\<close>

datatype 'p event =
    TriggeredScaleUp 'p gceNodeGroup int64 int64
  | NotTriggerScaleUp 'p

text \<open>
  The inner loop, over the unschedulable pods, for one node group: the group's
  estimator, \<open>migHelpsSomePods\<close> and \<open>podsRemainUnshedulable\<close> are its variables.
\<close>

fun check_pods ::
  "('p, 'ni, 'e) collaborators \<Rightarrow> gceNodeGroup \<Rightarrow> 'p list \<Rightarrow> 'e \<times> bool \<times> 'p set
     \<Rightarrow> 'e \<times> bool \<times> 'p set" where
  "check_pods E g [] acc = acc"
| "check_pods E g (pod # pods) (est, helps, remain) =
     (case BuildNodeInfoForNode E (GetSampleNode g) of
        Inl e \<Rightarrow> check_pods E g pods (est, helps, remain)
      | Inr nodeInfo \<Rightarrow>
          (case CheckPredicates E pod nodeInfo of
             None \<Rightarrow> check_pods E g pods (Add E est pod, True, remain)
           | Some e \<Rightarrow> check_pods E g pods (est, helps, insert pod remain)))"

text \<open>The outer loop, over the node groups, building \<open>expansionOptions\<close>.\<close>

fun collect_options ::
  "('p, 'ni, 'e) collaborators \<Rightarrow> GceManager \<Rightarrow> 'p list \<Rightarrow> gceNodeGroup list
     \<Rightarrow> 'e ExpansionOption list \<times> 'p set \<times> gce_call list
     \<Rightarrow> 'e ExpansionOption list \<times> 'p set \<times> gce_call list" where
  "collect_options E M pods [] acc = acc"
| "collect_options E M pods (g # gs) (opts, remain, h) =
     (case IsScaleUpPossible M g h of
        (Inl e, h') \<Rightarrow> collect_options E M pods gs (opts, remain, h')
      | (Inr ok, h') \<Rightarrow>
          (if \<not> ok then collect_options E M pods gs (opts, remain, h')
           else (case check_pods E g pods (NewBasicNodeEstimator E, False, remain) of
                   (est, helps, remain') \<Rightarrow>
                     collect_options E M pods gs
                       (if helps then opts @ [\<lparr>nodeGroup = g, estimator = est\<rparr>] else opts,
                        remain', h'))))"

text \<open>The rest of \<open>ScaleUp\<close>, from \<open>BestExpansionOption\<close> on.\<close>

definition resize_best ::
  "('p, 'ni, 'e) collaborators \<Rightarrow> GceManager
     \<Rightarrow> 'e ExpansionOption list \<times> 'p set \<times> gce_call list
     \<Rightarrow> (error + bool) \<times> gce_call list \<times> 'p event set" where
  "resize_best E M acc =
     (case acc of (opts, remain, h) \<Rightarrow>
        (case BestExpansionOption E opts of
           None \<Rightarrow> (Inr False, h, NotTriggerScaleUp ` remain)
         | Some bestOption \<Rightarrow>
             (if 0 <s GetCount E (estimator bestOption) then
                (case BuildNodeInfoForNode E (GetSampleNode (nodeGroup bestOption)) of
                   Inl e \<Rightarrow> (Inl (BackendError e), h, {})
                 | Inr nodeInfo \<Rightarrow>
                     (case Estimate E (estimator bestOption) (nodeOf E nodeInfo) of
                        (estimate, report) \<Rightarrow>
                          (case GetCurrentSize M (nodeGroup bestOption) h of
                             (Inl e, h') \<Rightarrow> (Inl (ErrorGettingNodeGroupSize e), h', {})
                           | (Inr currentSize, h') \<Rightarrow>
                               (case SetSize M (nodeGroup bestOption) estimate h' of
                                  (Some e, h'') \<Rightarrow> (Inl e, h'', {})
                                | (None, h'') \<Rightarrow>
                                    (Inr True, h'',
                                     (\<lambda>pod. TriggeredScaleUp pod (nodeGroup bestOption)
                                               currentSize (currentSize + estimate))
                                       ` FittingPods E (estimator bestOption))))))
              else (Inr False, h, NotTriggerScaleUp ` remain))))"

definition ScaleUp ::
  "('p, 'ni, 'e) collaborators \<Rightarrow> GceManager \<Rightarrow> 'p list \<Rightarrow> Node list \<Rightarrow> gce_call list
     \<Rightarrow> (error + bool) \<times> gce_call list \<times> 'p event set" where
  "ScaleUp E M unschedulablePods nodes h =
     (if unschedulablePods = [] then (Inr False, h, {})
      else (case GetNodeGroups E nodes of
              Inl e \<Rightarrow> (Inl (FailedToGetNodeGroups (BackendError e)), h, {})
            | Inr nodeGroups \<Rightarrow>
                resize_best E M
                  (collect_options E M unschedulablePods nodeGroups ([], {}, h))))"

section \<open>Notions of the specification\<close>

text \<open>
  A request of a refresh is answered when the service returns a description the refresh
  can read: no error, at least one record, and for an instance its zone.
\<close>

definition usable :: "AutoScaling \<Rightarrow> aws_call list \<Rightarrow> aws_call \<Rightarrow> bool" where
  "usable S h c =
     (case c of
        DescribeAutoScalingGroups n \<Rightarrow>
          (case describeGroups S h n of Inl e \<Rightarrow> False | Inr [] \<Rightarrow> False | Inr (g # _) \<Rightarrow> True)
      | DescribeAutoScalingInstances i \<Rightarrow>
          (case describeInstances S h i of
             Inl e \<Rightarrow> False
           | Inr [] \<Rightarrow> False
           | Inr (d # _) \<Rightarrow> AvailabilityZone d \<noteq> None)
      | _ \<Rightarrow> True)"

text \<open>Every request of \<open>cs\<close>, sent one after the other from the history \<open>h\<close> on, is answered.\<close>

fun answered :: "AutoScaling \<Rightarrow> aws_call list \<Rightarrow> aws_call list \<Rightarrow> bool" where
  "answered S h [] = True"
| "answered S h (c # cs) = (usable S h c \<and> answered S (h @ [c]) cs)"

text \<open>
  The membership map of a complete refresh, read off the requests \<open>cs\<close> it sent from the
  history \<open>h\<close> on. A complete refresh asks for every registered group in \<open>gs\<close>, in order,
  and after each group for every member that the answer lists (\<open>pending\<close> are the members
  still to ask for, \<open>cur\<close> the group they belong to); all requests are answered, and each
  member is recorded with the zone the service reports and the group that listed it, a
  later record of a reference replacing an earlier one. The result is \<open>None\<close> when \<open>cs\<close>
  is not such a sequence: a request too many, one missing, or one not answered.
\<close>

fun snapshot ::
  "AutoScaling \<Rightarrow> asgInformation list \<Rightarrow> Asg option \<Rightarrow> string option list
     \<Rightarrow> aws_call list \<Rightarrow> aws_call list \<Rightarrow> (AwsRef \<rightharpoonup> Asg) option" where
  "snapshot S gs cur pending h [] = (if gs = [] \<and> pending = [] then Some Map.empty else None)"
| "snapshot S gs cur pending h (c # cs) =
     (case c of
        DescribeAutoScalingGroups n \<Rightarrow>
          (case gs of
             [] \<Rightarrow> None
           | g # gs' \<Rightarrow>
               (if pending \<noteq> [] \<or> n \<noteq> basename g then None
                else (case describeGroups S h n of
                        Inl e \<Rightarrow> None
                      | Inr [] \<Rightarrow> None
                      | Inr (grp # _) \<Rightarrow>
                          snapshot S gs' (Some (config g)) (Instances grp) (h @ [c]) cs)))
      | DescribeAutoScalingInstances i \<Rightarrow>
          (case pending of
             [] \<Rightarrow> None
           | p # pending' \<Rightarrow>
               (if p \<noteq> Some i then None
                else (case cur of
                        None \<Rightarrow> None
                      | Some cfg \<Rightarrow>
                          (case describeInstances S h i of
                             Inl e \<Rightarrow> None
                           | Inr [] \<Rightarrow> None
                           | Inr (d # _) \<Rightarrow>
                               (case AvailabilityZone d of
                                  None \<Rightarrow> None
                                | Some z \<Rightarrow>
                                    map_option (\<lambda>later. [\<lparr>Zone = z, Name = i\<rparr> \<mapsto> cfg] ++ later)
                                      (snapshot S gs cur pending' (h @ [c]) cs))))))
      | _ \<Rightarrow> None)"

text \<open>The instances for which a termination request is among the requests \<open>h\<close>.\<close>

definition terminations :: "aws_call list \<Rightarrow> string list" where
  "terminations h =
     concat (map (\<lambda>c. case c of TerminateInstanceInAutoScalingGroup i \<Rightarrow> [i] | _ \<Rightarrow> []) h)"

text \<open>
  What the references of a list resolve to when they are looked up one after the other,
  each in the manager that the earlier lookups left, and the manager after the last one.
  A lookup that misses the cache in a configured zone refreshes it.
\<close>

fun resolve_all ::
  "AutoScaling \<Rightarrow> AwsManager \<Rightarrow> AwsRef list \<Rightarrow> (error + Asg option) list \<times> AwsManager" where
  "resolve_all S m [] = ([], m)"
| "resolve_all S m (r # rs) =
     (case GetAsgForInstance S m r of
        (x, m') \<Rightarrow> (case resolve_all S m' rs of (xs, m'') \<Rightarrow> (x # xs, m'')))"

text \<open>
  A lookup resolves to the group at address \<open>a\<close> (\<open>c = Some a\<close>) or to no group
  (\<open>c = None\<close>); a lookup that returns an error resolves to nothing.
\<close>

definition resolves_to :: "nat option \<Rightarrow> error + Asg option \<Rightarrow> bool" where
  "resolves_to c x = (case x of Inl e \<Rightarrow> False | Inr g \<Rightarrow> map_option addr g = c)"

text \<open>
  The answers of the service to one termination request per reference, in list order,
  each sent after all the earlier ones, starting from the requests \<open>h\<close>.
\<close>

definition terminate_responses ::
  "AutoScaling \<Rightarrow> aws_call list \<Rightarrow> AwsRef list \<Rightarrow> string option list" where
  "terminate_responses S h refs =
     map (\<lambda>j. terminateInstance S
                (h @ map (\<lambda>r. TerminateInstanceInAutoScalingGroup (Name r)) (take j refs))
                (Name (refs ! j)))
       [0..<length refs]"

section \<open>A small deployment, for the concrete cases\<close>

text \<open>
  A service that reports a desired capacity of 2 for every group and accepts every
  request, two groups in one zone \<open>z\<close>, and a manager that has both registered, with three members
  of \<open>a\<close> and one of \<open>b\<close> cached.
\<close>

definition example_service :: AutoScaling where
  "example_service =
     \<lparr>describeGroups = (\<lambda>h n. Inr [\<lparr>DesiredCapacity = Some 2, Instances = []\<rparr>]),
      setCapacity = (\<lambda>h n sz. None),
      terminateInstance = (\<lambda>h n. None),
      describeInstances = (\<lambda>h n. Inr [])\<rparr>"

definition example_url :: "string \<Rightarrow> string \<Rightarrow> string" where
  "example_url z n = z @ ''/'' @ n"

definition asg_a :: Asg where
  "asg_a = \<lparr>Zone = ''z'', Name = ''a'', addr = 0, minSize = 1, maxSize = 3\<rparr>"

definition asg_b :: Asg where
  "asg_b = \<lparr>Zone = ''z'', Name = ''b'', addr = 1, minSize = 1, maxSize = 3\<rparr>"

definition example_manager :: AwsManager where
  "example_manager =
     \<lparr>asgs = [\<lparr>config = asg_a, basename = []\<rparr>, \<lparr>config = asg_b, basename = []\<rparr>],
      asgCache = [\<lparr>Zone = ''z'', Name = ''i-1''\<rparr> \<mapsto> asg_a,
                  \<lparr>Zone = ''z'', Name = ''i-2''\<rparr> \<mapsto> asg_b,
                  \<lparr>Zone = ''z'', Name = ''i-3''\<rparr> \<mapsto> asg_a,
                  \<lparr>Zone = ''z'', Name = ''i-4''\<rparr> \<mapsto> asg_a],
      calls = []\<rparr>"

text \<open>
  A service in trouble: it answers the first request only, lists one instance \<open>i-7\<close>
  there, refuses every resize and the termination of \<open>i-3\<close>.
\<close>

definition flaky_service :: AutoScaling where
  "flaky_service =
     \<lparr>describeGroups =
        (\<lambda>h n. if h = [] then Inr [\<lparr>DesiredCapacity = Some 2, Instances = [Some ''i-7'']\<rparr>]
               else Inl ''unavailable''),
      setCapacity = (\<lambda>h n sz. Some ''throttled''),
      terminateInstance = (\<lambda>h n. if n = ''i-3'' then Some ''unavailable'' else None),
      describeInstances = (\<lambda>h n. Inr [\<lparr>AvailabilityZone = Some ''z''\<rparr>])\<rparr>"

text \<open>
  A service whose first answer lists \<open>i-9\<close> and whose later answers list \<open>i-1\<close>, and one
  that lists \<open>i-7\<close> and \<open>i-8\<close> in its first answer, nothing later, and refuses to
  terminate \<open>i-8\<close>.
\<close>

definition moving_service :: AutoScaling where
  "moving_service =
     \<lparr>describeGroups =
        (\<lambda>h n. if h = [] then Inr [\<lparr>DesiredCapacity = Some 2, Instances = [Some ''i-9'']\<rparr>]
               else Inr [\<lparr>DesiredCapacity = Some 2, Instances = [Some ''i-1'']\<rparr>]),
      setCapacity = (\<lambda>h n sz. None),
      terminateInstance = (\<lambda>h n. None),
      describeInstances = (\<lambda>h n. Inr [\<lparr>AvailabilityZone = Some ''z''\<rparr>])\<rparr>"

definition stocked_service :: AutoScaling where
  "stocked_service =
     \<lparr>describeGroups =
        (\<lambda>h n. Inr [\<lparr>DesiredCapacity = Some 2,
                      Instances = (if h = [] then [Some ''i-7'', Some ''i-8''] else [])\<rparr>]),
      setCapacity = (\<lambda>h n sz. None),
      terminateInstance = (\<lambda>h n. if n = ''i-8'' then Some ''unavailable'' else None),
      describeInstances = (\<lambda>h n. Inr [\<lparr>AvailabilityZone = Some ''z''\<rparr>])\<rparr>"

definition example_parseUrl :: "string \<Rightarrow> string + string \<times> string" where
  "example_parseUrl s =
     (case cut CHR ''/'' s of
        None \<Rightarrow> Inl ''no zone''
      | Some (z, n) \<Rightarrow> Inr (z, n))"

text \<open>
  Two instance groups of at most three machines behind a GCE manager that cannot read the
  size of one of them, and collaborators that find every pod schedulable and estimate
  five machines.
\<close>

definition example_mig :: MigConfig where
  "example_mig = \<lparr>Url_mig = ''mig'', MinSize_mig = 1, MaxSize_mig = 3\<rparr>"

definition broken_mig :: MigConfig where
  "broken_mig = \<lparr>Url_mig = ''broken'', MinSize_mig = 1, MaxSize_mig = 3\<rparr>"

definition example_gce :: GceManager where
  "example_gce =
     \<lparr>getMigSize = (\<lambda>h mig. if Url_mig mig = ''broken'' then Inl ''unavailable'' else Inr 1),
      setMigSize = (\<lambda>h mig sz. None)\<rparr>"

definition example_group :: gceNodeGroup where
  "example_group =
     \<lparr>migConfig = example_mig, sampleNode = \<lparr>NodeName = ''n1'', ProviderID = ''gce://z/n1''\<rparr>\<rparr>"

definition broken_group :: gceNodeGroup where
  "broken_group =
     \<lparr>migConfig = broken_mig, sampleNode = \<lparr>NodeName = ''n2'', ProviderID = ''gce://z/n2''\<rparr>\<rparr>"

definition example_collaborators :: "(nat, Node, nat list) collaborators" where
  "example_collaborators =
     \<lparr>GetNodeGroups = (\<lambda>nodes. Inr [broken_group, example_group]),
      BuildNodeInfoForNode = (\<lambda>node. Inr node),
      nodeOf = (\<lambda>nodeInfo. nodeInfo),
      CheckPredicates = (\<lambda>pod nodeInfo. None),
      NewBasicNodeEstimator = [],
      Add = (\<lambda>est pod. est @ [pod]),
      GetCount = (\<lambda>est. of_nat (length est)),
      Estimate = (\<lambda>est node. (5, [])),
      FittingPods = set,
      BestExpansionOption = (\<lambda>opts. case opts of [] \<Rightarrow> None | x # _ \<Rightarrow> Some x)\<rparr>"

section \<open>Auxiliary facts\<close>

subsection \<open>Evaluation on the concrete cases\<close>

lemmas eval_defs = example_service_def flaky_service_def example_url_def asg_a_def asg_b_def
  example_manager_def GetAsgSize_def SetAsgSize_def sent_def MinSize_def MaxSize_def
  AwsRefFromProviderId_def Split_def GetAsgForInstance_def Id_def DeleteInstances_def
  DeleteNodes_def Belongs_def IncreaseSize_def
  regenerateCache_def Let_def word_sle_eq word_sless_alt

lemmas refresh_defs = eval_defs moving_service_def stocked_service_def

lemmas gce_defs = example_mig_def broken_mig_def example_gce_def example_group_def broken_group_def
  example_collaborators_def ScaleUp_def resize_best_def IsScaleUpPossible_def GetCurrentSize_def
  SetSize_def capped_def GetSampleNode_def word_sle_eq word_sless_alt

subsection \<open>The refresh leaves the manager alone until it succeeds\<close>

lemma regenerate_instances_keeps:
  "regenerate_instances S cfg insts nc m = (r, m') \<Longrightarrow> asgs m' = asgs m \<and> asgCache m' = asgCache m"
proof (induction insts arbitrary: nc m)
  case Nil
  then show ?case by simp
next
  case (Cons inst insts)
  show ?case
  proof (cases inst)
    case None
    with Cons.prems show ?thesis by simp
  next
    case (Some ident)
    have "asgs m' = asgs (sent m (DescribeAutoScalingInstances ident))
        \<and> asgCache m' = asgCache (sent m (DescribeAutoScalingInstances ident))"
      using Cons.prems Some Cons.IH
      by (auto simp: Let_def split: sum.splits list.splits option.splits)
    then show ?thesis by (simp add: sent_def)
  qed
qed

lemma regenerate_groups_keeps:
  "regenerate_groups S gs nc m = (r, m') \<Longrightarrow> asgs m' = asgs m \<and> asgCache m' = asgCache m"
proof (induction gs arbitrary: nc m)
  case Nil
  then show ?case by simp
next
  case (Cons g gs)
  show ?case
  proof (cases "describeGroups S (calls m) (basename g)")
    case (Inl e)
    with Cons.prems show ?thesis by (auto simp: sent_def)
  next
    case (Inr groups)
    show ?thesis
    proof (cases groups)
      case Nil
      with Inr Cons.prems show ?thesis by (auto simp: sent_def Let_def)
    next
      case (Cons grp rest)
      obtain r1 m1 where inner:
        "regenerate_instances S (config g) (Instances grp) nc
           (sent m (DescribeAutoScalingGroups (basename g))) = (r1, m1)"
        by (cases "regenerate_instances S (config g) (Instances grp) nc
           (sent m (DescribeAutoScalingGroups (basename g)))") auto
      have keep1: "asgs m1 = asgs m \<and> asgCache m1 = asgCache m"
        using regenerate_instances_keeps [OF inner] by (simp add: sent_def)
      show ?thesis
      proof (cases r1)
        case (Inl e)
        with \<open>describeGroups S (calls m) (basename g) = Inr groups\<close> Cons inner Cons.prems keep1
        show ?thesis by (simp add: Let_def)
      next
        case (Inr nc')
        with \<open>describeGroups S (calls m) (basename g) = Inr groups\<close> Cons inner Cons.prems
        have "regenerate_groups S gs nc' m1 = (r, m')" by (simp add: Let_def)
        from Cons.IH [OF this] keep1 show ?thesis by simp
      qed
    qed
  qed
qed

lemma regenerateCache_keeps_asgs:
  "regenerateCache S m = (r, m') \<Longrightarrow> asgs m' = asgs m"
  by (auto simp: regenerateCache_def split: prod.splits sum.splits dest: regenerate_groups_keeps)

lemma regenerateCache_error_keeps:
  "regenerateCache S m = (Inl e, m') \<Longrightarrow> asgCache m' = asgCache m"
  by (auto simp: regenerateCache_def split: prod.splits sum.splits dest: regenerate_groups_keeps)

lemma lookup_after_miss_flat:
  "lookup_after_miss S m ref gs =
     (if \<exists>a\<in>set gs. Zone (config a) = Zone ref
      then (case regenerateCache S m of
              (Inl e, m') \<Rightarrow>
                (Inl (if e = RuntimePanic then RuntimePanic else LookupFailed ref e), m')
            | (Inr u, m') \<Rightarrow>
                (case asgCache m' ref of
                   Some cfg \<Rightarrow> (Inr (Some cfg), m')
                 | None \<Rightarrow> (Inl (NotInAnyConfiguredAsg ref), m')))
      else (Inr None, m))"
  by (induction gs) (auto split: prod.splits sum.splits option.splits)

lemma lookup_after_miss_cache:
  "lookup_after_miss S m ref gs = (r, m') \<Longrightarrow>
     asgs m' = asgs m \<and> (asgCache m' = asgCache m \<or> asgCache m' = asgCache (snd (regenerateCache S m)))"
  unfolding lookup_after_miss_flat
  by (auto split: if_splits prod.splits sum.splits option.splits
      dest: regenerateCache_keeps_asgs regenerateCache_error_keeps)

lemma regenerateCache_error_state:
  "regenerateCache S m = (Inl e, m') \<Longrightarrow> m' = m\<lparr>calls := calls m'\<rparr>"
  using regenerateCache_keeps_asgs [of S m "Inl e" m'] regenerateCache_error_keeps [of S m e m']
  by simp

subsection \<open>The termination loop\<close>

lemma terminate_responses_Cons:
  "terminate_responses S h (r # rs) =
     terminateInstance S h (Name r)
       # terminate_responses S (h @ [TerminateInstanceInAutoScalingGroup (Name r)]) rs"
proof -
  have "[0..<length (r # rs)] = 0 # map Suc [0..<length rs]"
    by (simp add: upt_conv_Cons map_Suc_upt del: upt_Suc)
  then show ?thesis
    by (simp add: terminate_responses_def comp_def del: upt_Suc)
qed

lemma terminate_all_trace:
  "terminate_all S m refs =
     (case dropWhile (\<lambda>x. x = None) (terminate_responses S (calls m) refs) of
        [] \<Rightarrow> None
      | x # _ \<Rightarrow> map_option BackendError x,
      m\<lparr>calls := calls m @ map (\<lambda>r. TerminateInstanceInAutoScalingGroup (Name r))
           (take (Suc (length (takeWhile (\<lambda>x. x = None) (terminate_responses S (calls m) refs)))) refs)\<rparr>)"
proof (induction refs arbitrary: m)
  case Nil
  then show ?case by (simp add: terminate_responses_def)
next
  case (Cons r rs)
  show ?case
  proof (cases "terminateInstance S (calls m) (Name r)")
    case None
    then show ?thesis
      by (simp add: Cons.IH terminate_responses_Cons sent_def)
  next
    case (Some e)
    then show ?thesis
      by (simp add: terminate_responses_Cons sent_def)
  qed
qed

subsection \<open>The requests of a refresh\<close>

lemma snapshot_answered:
  "snapshot S gs cur pending h cs = Some D \<Longrightarrow> answered S h cs"
proof (induction cs arbitrary: gs cur pending h D)
  case Nil
  then show ?case by simp
next
  case (Cons c cs)
  then show ?case
    by (cases c)
       (auto simp: usable_def split: list.splits if_splits sum.splits option.splits)
qed

lemma regenerate_instances_snapshot:
  "regenerate_instances S cfg insts nc m = (Inr nc', m') \<Longrightarrow>
   \<exists>new D. calls m' = calls m @ new \<and> nc' = nc ++ D
     \<and> (\<forall>gs cs. snapshot S gs (Some cfg) insts (calls m) (new @ cs)
            = map_option (\<lambda>later. D ++ later) (snapshot S gs (Some cfg) [] (calls m') cs))"
proof (induction insts arbitrary: nc m)
  case Nil
  then have "m' = m" "nc' = nc" by simp_all
  then have "calls m' = calls m @ [] \<and> nc' = nc ++ Map.empty
     \<and> (\<forall>gs cs. snapshot S gs (Some cfg) [] (calls m) ([] @ cs)
            = map_option (\<lambda>later. Map.empty ++ later) (snapshot S gs (Some cfg) [] (calls m') cs))"
    by (simp add: option.map_ident)
  then show ?case by blast
next
  case (Cons inst insts)
  from Cons.prems obtain ident where inst: "inst = Some ident"
    by (cases inst) auto
  let ?c = "DescribeAutoScalingInstances ident"
  from Cons.prems inst obtain d ds where ans: "describeInstances S (calls m) ident = Inr (d # ds)"
    by (cases "describeInstances S (calls m) ident")
       (auto simp: Let_def split: list.splits)
  from Cons.prems inst ans obtain z where z: "AvailabilityZone d = Some z"
    by (cases "AvailabilityZone d") (auto simp: Let_def)
  let ?ref = "\<lparr>Zone = z, Name = ident\<rparr>"
  from Cons.prems inst ans z
  have rec: "regenerate_instances S cfg insts (nc(?ref \<mapsto> cfg)) (sent m ?c) = (Inr nc', m')"
    by (simp add: Let_def)
  from Cons.IH [OF rec] obtain new D where
    ih: "calls m' = calls (sent m ?c) @ new" "nc' = nc(?ref \<mapsto> cfg) ++ D"
      "\<And>gs cs. snapshot S gs (Some cfg) insts (calls (sent m ?c)) (new @ cs)
            = map_option (\<lambda>later. D ++ later) (snapshot S gs (Some cfg) [] (calls m') cs)"
    by blast
  have c1: "calls m' = calls m @ (?c # new)" using ih(1) by (simp add: sent_def)
  have "nc(?ref \<mapsto> cfg) = nc ++ [?ref \<mapsto> cfg]" by simp
  then have c2: "nc' = nc ++ ([?ref \<mapsto> cfg] ++ D)" using ih(2) by (simp only: map_add_assoc)
  have c3: "\<forall>gs cs. snapshot S gs (Some cfg) (inst # insts) (calls m) ((?c # new) @ cs)
            = map_option (\<lambda>later. ([?ref \<mapsto> cfg] ++ D) ++ later)
                (snapshot S gs (Some cfg) [] (calls m') cs)"
    using ih(3) inst ans z
    by (simp add: sent_def option.map_comp comp_def map_add_assoc)
  from c1 c2 c3 show ?case by blast
qed

lemma regenerate_groups_snapshot:
  "regenerate_groups S gs nc m = (Inr nc', m') \<Longrightarrow>
   \<exists>new D. calls m' = calls m @ new \<and> nc' = nc ++ D
     \<and> snapshot S gs cur [] (calls m) new = Some D"
proof (induction gs arbitrary: nc m cur)
  case Nil
  then have "calls m' = calls m @ [] \<and> nc' = nc ++ Map.empty
     \<and> snapshot S [] cur [] (calls m) [] = Some Map.empty" by simp
  then show ?case by blast
next
  case (Cons g gs)
  let ?c = "DescribeAutoScalingGroups (basename g)"
  from Cons.prems obtain grp rest where ans: "describeGroups S (calls m) (basename g) = Inr (grp # rest)"
    by (cases "describeGroups S (calls m) (basename g)")
       (auto simp: Let_def split: list.splits)
  obtain r1 m1 where inner:
    "regenerate_instances S (config g) (Instances grp) nc (sent m ?c) = (r1, m1)"
    by (cases "regenerate_instances S (config g) (Instances grp) nc (sent m ?c)") auto
  from Cons.prems ans inner obtain nc1 where r1: "r1 = Inr nc1"
    by (cases r1) (auto simp: Let_def)
  from Cons.prems ans inner r1 have outer: "regenerate_groups S gs nc1 m1 = (Inr nc', m')"
    by (simp add: Let_def)
  from regenerate_instances_snapshot [OF inner [unfolded r1]] obtain new1 D1 where
    a: "calls m1 = calls (sent m ?c) @ new1" "nc1 = nc ++ D1"
      "\<And>gs' cs. snapshot S gs' (Some (config g)) (Instances grp) (calls (sent m ?c)) (new1 @ cs)
            = map_option (\<lambda>later. D1 ++ later) (snapshot S gs' (Some (config g)) [] (calls m1) cs)"
    by blast
  from Cons.IH [OF outer, of "Some (config g)"] obtain new2 D2 where
    b: "calls m' = calls m1 @ new2" "nc' = nc1 ++ D2"
      "snapshot S gs (Some (config g)) [] (calls m1) new2 = Some D2"
    by blast
  have c1: "calls m' = calls m @ (?c # new1 @ new2)" using a(1) b(1) by (simp add: sent_def)
  have c2: "nc' = nc ++ (D1 ++ D2)" using a(2) b(2) by (simp add: map_add_assoc)
  have c3: "snapshot S (g # gs) cur [] (calls m) (?c # new1 @ new2) = Some (D1 ++ D2)"
    using ans a(3) [of gs new2] b(3) by (simp add: sent_def)
  from c1 c2 c3 show ?case by blast
qed

lemma regenerate_instances_requests:
  "regenerate_instances S cfg insts nc m = (r, m') \<Longrightarrow>
   \<exists>new. calls m' = calls m @ new \<and> terminations new = []"
proof (induction insts arbitrary: nc m)
  case Nil
  then have "calls m' = calls m @ [] \<and> terminations [] = []" by (simp add: terminations_def)
  then show ?case by blast
next
  case (Cons inst insts)
  show ?case
  proof (cases inst)
    case None
    with Cons.prems have "calls m' = calls m @ [] \<and> terminations [] = []"
      by (simp add: terminations_def)
    then show ?thesis by blast
  next
    case (Some ident)
    let ?c = "DescribeAutoScalingInstances ident"
    have "(\<exists>new. calls m' = calls (sent m ?c) @ new \<and> terminations new = [])"
    proof (cases "\<exists>d ds z. describeInstances S (calls m) ident = Inr (d # ds) \<and> AvailabilityZone d = Some z")
      case True
      then obtain d ds z where "describeInstances S (calls m) ident = Inr (d # ds)"
        "AvailabilityZone d = Some z" by blast
      with Cons.prems Some
      have "regenerate_instances S cfg insts (nc(\<lparr>Zone = z, Name = ident\<rparr> \<mapsto> cfg)) (sent m ?c) = (r, m')"
        by (simp add: Let_def)
      from Cons.IH [OF this] show ?thesis .
    next
      case False
      with Cons.prems Some have "m' = sent m ?c"
        by (auto simp: Let_def split: sum.splits list.splits option.splits)
      then have "calls m' = calls (sent m ?c) @ [] \<and> terminations [] = []"
        by (simp add: terminations_def)
      then show ?thesis by blast
    qed
    then obtain new where "calls m' = calls (sent m ?c) @ new" "terminations new = []" by blast
    then have "calls m' = calls m @ (?c # new) \<and> terminations (?c # new) = []"
      by (simp add: sent_def terminations_def)
    then show ?thesis by blast
  qed
qed

lemma regenerate_groups_requests:
  "regenerate_groups S gs nc m = (r, m') \<Longrightarrow>
   \<exists>new. calls m' = calls m @ new \<and> terminations new = []"
proof (induction gs arbitrary: nc m)
  case Nil
  then have "calls m' = calls m @ [] \<and> terminations [] = []" by (simp add: terminations_def)
  then show ?case by blast
next
  case (Cons g gs)
  let ?c = "DescribeAutoScalingGroups (basename g)"
  have "\<exists>new. calls m' = calls (sent m ?c) @ new \<and> terminations new = []"
  proof (cases "\<exists>grp rest. describeGroups S (calls m) (basename g) = Inr (grp # rest)")
    case False
    with Cons.prems have "m' = sent m ?c"
      by (auto simp: Let_def split: sum.splits list.splits)
    then have "calls m' = calls (sent m ?c) @ [] \<and> terminations [] = []"
      by (simp add: terminations_def)
    then show ?thesis by blast
  next
    case True
    then obtain grp rest where ans: "describeGroups S (calls m) (basename g) = Inr (grp # rest)"
      by blast
    obtain r1 m1 where inner:
      "regenerate_instances S (config g) (Instances grp) nc (sent m ?c) = (r1, m1)"
      by (cases "regenerate_instances S (config g) (Instances grp) nc (sent m ?c)") auto
    from regenerate_instances_requests [OF inner] obtain new1 where
      a: "calls m1 = calls (sent m ?c) @ new1" "terminations new1 = []" by blast
    show ?thesis
    proof (cases r1)
      case (Inl e)
      with Cons.prems ans inner have "m' = m1" by (simp add: Let_def)
      with a show ?thesis by blast
    next
      case (Inr nc1)
      with Cons.prems ans inner have "regenerate_groups S gs nc1 m1 = (r, m')"
        by (simp add: Let_def)
      from Cons.IH [OF this] obtain new2 where
        b: "calls m' = calls m1 @ new2" "terminations new2 = []" by blast
      from a b have "calls m' = calls (sent m ?c) @ (new1 @ new2) \<and> terminations (new1 @ new2) = []"
        by (simp add: terminations_def)
      then show ?thesis by blast
    qed
  qed
  then obtain new where "calls m' = calls (sent m ?c) @ new" "terminations new = []" by blast
  then have "calls m' = calls m @ (?c # new) \<and> terminations (?c # new) = []"
    by (simp add: sent_def terminations_def)
  then show ?case by blast
qed

lemma regenerateCache_requests:
  "regenerateCache S m = (r, m') \<Longrightarrow> \<exists>new. calls m' = calls m @ new \<and> terminations new = []"
proof -
  assume a: "regenerateCache S m = (r, m')"
  obtain r0 m0 where g: "regenerate_groups S (asgs m) Map.empty m = (r0, m0)"
    by (cases "regenerate_groups S (asgs m) Map.empty m") auto
  from a g have "calls m' = calls m0" by (cases r0) (auto simp: regenerateCache_def)
  with regenerate_groups_requests [OF g] show ?thesis by simp
qed

lemma regenerateCache_snapshot:
  "regenerateCache S m = (Inr u, m') \<Longrightarrow>
   \<exists>new. calls m' = calls m @ new \<and> snapshot S (asgs m) None [] (calls m) new = Some (asgCache m')"
proof -
  assume a: "regenerateCache S m = (Inr u, m')"
  obtain r0 m0 where g: "regenerate_groups S (asgs m) Map.empty m = (r0, m0)"
    by (cases "regenerate_groups S (asgs m) Map.empty m") auto
  from a g obtain nc where r0: "r0 = Inr nc" and m': "m' = m0\<lparr>asgCache := nc\<rparr>"
    by (cases r0) (auto simp: regenerateCache_def)
  from regenerate_groups_snapshot [OF g [unfolded r0], of None] obtain new D where
    "calls m0 = calls m @ new" "nc = Map.empty ++ D"
    "snapshot S (asgs m) None [] (calls m) new = Some D" by blast
  with m' show ?thesis by simp
qed

subsection \<open>Lookups one after the other\<close>

lemma terminations_append: "terminations (h @ k) = terminations h @ terminations k"
  by (simp add: terminations_def)

lemma GetAsgForInstance_again:
  assumes "GetAsgForInstance S m r = (Inr g, m0)"
  shows "GetAsgForInstance S m0 r = (Inr g, m0)"
proof (cases "asgCache m r")
  case (Some cfg)
  with assms have "m0 = m" by (simp add: GetAsgForInstance_def)
  with assms show ?thesis by simp
next
  case None
  show ?thesis
  proof (cases "\<exists>a\<in>set (asgs m). Zone (config a) = Zone r")
    case False
    with None assms have "m0 = m"
      by (simp add: GetAsgForInstance_def lookup_after_miss_flat)
    with assms show ?thesis by simp
  next
    case True
    obtain r1 m1 where rc: "regenerateCache S m = (r1, m1)"
      by (cases "regenerateCache S m") auto
    from None True rc assms have l:
      "(case r1 of
          Inl e \<Rightarrow> (Inl (if e = RuntimePanic then RuntimePanic else LookupFailed r e), m1)
        | Inr u \<Rightarrow>
            (case asgCache m1 r of
               Some cfg \<Rightarrow> (Inr (Some cfg), m1)
             | None \<Rightarrow> (Inl (NotInAnyConfiguredAsg r), m1))) = (Inr g, m0)"
      by (simp add: GetAsgForInstance_def lookup_after_miss_flat)
    show ?thesis
    proof (cases r1)
      case (Inl e)
      with l show ?thesis by simp
    next
      case (Inr u)
      show ?thesis
      proof (cases "asgCache m1 r")
        case None
        with l Inr show ?thesis by simp
      next
        case (Some cfg)
        with l Inr have "m0 = m1" "g = Some cfg" by simp_all
        with Some show ?thesis by (simp add: GetAsgForInstance_def)
      qed
    qed
  qed
qed

lemma GetAsgForInstance_requests:
  assumes "GetAsgForInstance S m r = (x, m')"
  shows "\<exists>new. calls m' = calls m @ new \<and> terminations new = []"
proof -
  have same: "m' = m \<Longrightarrow> ?thesis"
  proof -
    assume "m' = m"
    then have "calls m' = calls m @ [] \<and> terminations [] = []" by (simp add: terminations_def)
    then show ?thesis by blast
  qed
  show ?thesis
  proof (cases "asgCache m r")
    case (Some cfg)
    with assms have "m' = m" by (auto simp: GetAsgForInstance_def)
    then show ?thesis by (rule same)
  next
    case None
    show ?thesis
    proof (cases "\<exists>a\<in>set (asgs m). Zone (config a) = Zone r")
      case False
      with None assms have "m' = m"
        by (simp add: GetAsgForInstance_def lookup_after_miss_flat)
      then show ?thesis by (rule same)
    next
      case True
      obtain r1 m1 where rc: "regenerateCache S m = (r1, m1)"
        by (cases "regenerateCache S m") auto
      from None True rc assms have "m' = m1"
        by (cases r1; cases "asgCache m1 r")
           (auto simp: GetAsgForInstance_def lookup_after_miss_flat)
      with regenerateCache_requests [OF rc] show ?thesis by simp
    qed
  qed
qed

lemma check_common_requests:
  "check_common S m g rs = (r, m') \<Longrightarrow> \<exists>new. calls m' = calls m @ new \<and> terminations new = []"
proof (induction rs arbitrary: m)
  case Nil
  then have "calls m' = calls m @ [] \<and> terminations [] = []" by (simp add: terminations_def)
  then show ?case by blast
next
  case (Cons a rs)
  obtain x m0 where l: "GetAsgForInstance S m a = (x, m0)"
    by (cases "GetAsgForInstance S m a") auto
  from GetAsgForInstance_requests [OF l] obtain new0 where
    n0: "calls m0 = calls m @ new0" "terminations new0 = []" by blast
  show ?case
  proof (cases "\<exists>asg. x = Inr asg \<and> map_option addr asg = map_option addr g")
    case False
    with Cons.prems l have "m' = m0" by (cases x) (auto split: if_splits)
    with n0 show ?thesis by blast
  next
    case True
    with Cons.prems l have "check_common S m0 g rs = (r, m')" by auto
    from Cons.IH [OF this] obtain new1 where
      "calls m' = calls m0 @ new1" "terminations new1 = []" by blast
    with n0 have "calls m' = calls m @ (new0 @ new1) \<and> terminations (new0 @ new1) = []"
      by (simp add: terminations_append)
    then show ?thesis by blast
  qed
qed

lemma check_common_passes:
  "list_all (resolves_to (map_option addr g)) (fst (resolve_all S m rs)) \<Longrightarrow>
   check_common S m g rs = (None, snd (resolve_all S m rs))"
proof (induction rs arbitrary: m)
  case Nil
  then show ?case by simp
next
  case (Cons a rs)
  obtain x m0 where l: "GetAsgForInstance S m a = (x, m0)"
    by (cases "GetAsgForInstance S m a") auto
  obtain xs m1 where rest: "resolve_all S m0 rs = (xs, m1)"
    by (cases "resolve_all S m0 rs") auto
  from Cons.prems l rest have x: "resolves_to (map_option addr g) x"
    and xs: "list_all (resolves_to (map_option addr g)) (fst (resolve_all S m0 rs))"
    by simp_all
  from x obtain asg where "x = Inr asg" "map_option addr asg = map_option addr g"
    by (cases x) (auto simp: resolves_to_def)
  with l rest Cons.IH [OF xs] show ?case by simp
qed

lemma check_common_None:
  "check_common S m g rs = (None, m') \<Longrightarrow>
   list_all (resolves_to (map_option addr g)) (fst (resolve_all S m rs))"
proof (induction rs arbitrary: m)
  case Nil
  then show ?case by simp
next
  case (Cons a rs)
  obtain x m0 where l: "GetAsgForInstance S m a = (x, m0)"
    by (cases "GetAsgForInstance S m a") auto
  obtain xs m1 where rest: "resolve_all S m0 rs = (xs, m1)"
    by (cases "resolve_all S m0 rs") auto
  from Cons.prems l obtain asg where x: "x = Inr asg" "map_option addr asg = map_option addr g"
    and c: "check_common S m0 g rs = (None, m')"
    by (cases x) (auto split: if_splits)
  from Cons.IH [OF c] x l rest show ?case by (simp add: resolves_to_def)
qed

lemma check_common_error:
  "check_common S m g rs = (Some e, m') \<Longrightarrow>
   e = NotSameAsg \<or> Inl e \<in> set (fst (resolve_all S m rs))"
proof (induction rs arbitrary: m)
  case Nil
  then show ?case by simp
next
  case (Cons a rs)
  obtain x m0 where l: "GetAsgForInstance S m a = (x, m0)"
    by (cases "GetAsgForInstance S m a") auto
  obtain xs m1 where rest: "resolve_all S m0 rs = (xs, m1)"
    by (cases "resolve_all S m0 rs") auto
  show ?case
  proof (cases x)
    case (Inl e')
    with Cons.prems l rest show ?thesis by auto
  next
    case (Inr asg)
    show ?thesis
    proof (cases "map_option addr asg = map_option addr g")
      case False
      with Cons.prems l Inr show ?thesis by auto
    next
      case True
      with Cons.prems l Inr have "check_common S m0 g rs = (Some e, m')" by auto
      from Cons.IH [OF this] l rest show ?thesis by auto
    qed
  qed
qed

lemma terminate_all_not_mixed: "fst (terminate_all S m refs) \<noteq> Some NotSameAsg"
  by (auto simp: terminate_all_trace split: list.splits)

subsection \<open>Sums that do not overflow\<close>

lemma sint_add_no_overflow:
  fixes s d :: int64
  assumes "0 <s d" and "sint s + sint d < 2 ^ 63"
  shows "sint (s + d) = sint s + sint d"
proof -
  have "0 < sint d" using assms(1) by (simp add: word_sless_alt)
  moreover have "- (2 ^ 63) \<le> sint s" using sint_ge [of s] by simp
  ultimately have "- (2 ^ 63) \<le> sint s + sint d" by arith
  with assms(2) have "signed_take_bit 63 (sint s + sint d) = sint s + sint d"
    by (simp add: signed_take_bit_int_eq_self)
  then show ?thesis by (simp add: sint_word_ariths)
qed

subsection \<open>Splitting at a separator\<close>

lemma cut_None_iff: "cut c s = None \<longleftrightarrow> c \<notin> set s"
  by (induction s) (auto split: option.splits)

lemma cut_Some_iff: "cut c s = Some (a, b) \<longleftrightarrow> s = a @ c # b \<and> c \<notin> set a"
proof (induction s arbitrary: a)
  case Nil
  then show ?case by simp
next
  case (Cons x xs)
  show ?case
  proof (cases "x = c")
    case True
    then show ?thesis by (cases a) auto
  next
    case False
    show ?thesis
    proof (cases a)
      case Nil
      with False show ?thesis by (auto split: option.splits)
    next
      case (Cons y ys)
      with False Cons.IH [of ys] show ?thesis by (auto split: option.splits)
    qed
  qed
qed

lemma SplitN_three:
  "SplitN s c 3 = [t0, t1, t2] \<longleftrightarrow> s = t0 @ c # t1 @ c # t2 \<and> c \<notin> set t0 \<and> c \<notin> set t1"
proof -
  have three: "(3::nat) = Suc (Suc (Suc 0))" by simp
  show ?thesis
  proof (cases "cut c s")
    case None
    then show ?thesis using cut_None_iff [of c s] by (auto simp: three)
  next
    case (Some ab)
    obtain a b where ab: "ab = (a, b)" by (cases ab)
    with Some have s: "s = a @ c # b" "c \<notin> set a" by (simp_all add: cut_Some_iff)
    have uniq: "\<And>x y. s = x @ c # y \<Longrightarrow> c \<notin> set x \<Longrightarrow> x = a \<and> y = b"
    proof -
      fix x y assume "s = x @ c # y" "c \<notin> set x"
      then have "cut c s = Some (x, y)" by (simp add: cut_Some_iff)
      with Some ab show "x = a \<and> y = b" by simp
    qed
    show ?thesis
    proof (cases "cut c b")
      case None
      then have nb: "c \<notin> set b" by (simp add: cut_None_iff)
      have l2: "SplitN s c 3 = [a, b]"
        using \<open>cut c s = Some ab\<close> ab None by (simp add: three)
      have "\<not> (s = t0 @ c # t1 @ c # t2 \<and> c \<notin> set t0 \<and> c \<notin> set t1)"
      proof
        assume r: "s = t0 @ c # t1 @ c # t2 \<and> c \<notin> set t0 \<and> c \<notin> set t1"
        with uniq [of t0 "t1 @ c # t2"] have "b = t1 @ c # t2" by simp
        with nb show False by simp
      qed
      with l2 show ?thesis by simp
    next
      case (Some cd)
      obtain a' b' where cd: "cd = (a', b')" by (cases cd)
      with Some have b: "b = a' @ c # b'" "c \<notin> set a'" by (simp_all add: cut_Some_iff)
      have l: "SplitN s c 3 = [a, a', b']"
        using \<open>cut c s = Some ab\<close> ab Some cd by (simp add: three)
      show ?thesis
      proof
        assume "SplitN s c 3 = [t0, t1, t2]"
        with l s b show "s = t0 @ c # t1 @ c # t2 \<and> c \<notin> set t0 \<and> c \<notin> set t1" by simp
      next
        assume r: "s = t0 @ c # t1 @ c # t2 \<and> c \<notin> set t0 \<and> c \<notin> set t1"
        with uniq [of t0 "t1 @ c # t2"] have "t0 = a" "b = t1 @ c # t2" by simp_all
        moreover from this r Some cd have "t1 = a' \<and> t2 = b'"
          using cut_Some_iff [of c b t1 t2] by simp
        ultimately show "SplitN s c 3 = [t0, t1, t2]" using l by simp
      qed
    qed
  qed
qed

lemma SplitN_three_cases:
  "(\<exists>t0 t1 t2. SplitN s c 3 = [t0, t1, t2]) \<or> (\<exists>t0. SplitN s c 3 = [t0]) \<or> (\<exists>t0 t1. SplitN s c 3 = [t0, t1])"
  by (auto simp: numeral_3_eq_3 split: option.splits)

lemma sle_one_iff: "(1 \<le>s (x::int64)) \<longleftrightarrow> \<not> x \<le>s 0"
  by (simp add: word_sle_eq) arith

subsection \<open>The loop over the node groups\<close>

lemma collect_options_append:
  "collect_options E M pods (pre @ post) acc
     = collect_options E M pods post (collect_options E M pods pre acc)"
proof (induction pre arbitrary: acc)
  case Nil
  then show ?case by simp
next
  case (Cons g gs)
  obtain opts remain h where acc: "acc = (opts, remain, h)" by (cases acc)
  show ?case unfolding acc
    by (simp add: Cons.IH split: prod.splits sum.splits)
qed

section \<open>Properties\<close>

text \<open>
  C1. The claim says that \<open>DeleteNodes\<close> returns an error, and deletes nothing, when a node
  belongs to another group. The loop of \<open>DeleteNodes\<close> returns its error when \<open>Belongs\<close>
  answers true: for group \<open>a\<close>, of size 2 above its minimum 1, the node of instance
  \<open>i-2\<close>, a member of group \<open>b\<close>, is terminated and no error is returned, while the
  node of \<open>i-1\<close>, a member of \<open>a\<close> itself, is refused.
\<close>

theorem DeleteNodes_deletes_foreign_member:
  "fst (DeleteNodes example_url example_service example_manager asg_a
          [\<lparr>NodeName = ''n2'', ProviderID = ''aws://z/i-2''\<rparr>]) = None
   \<and> calls (snd (DeleteNodes example_url example_service example_manager asg_a
          [\<lparr>NodeName = ''n2'', ProviderID = ''aws://z/i-2''\<rparr>]))
       = [DescribeAutoScalingGroups ''a'', TerminateInstanceInAutoScalingGroup ''i-2'']
   \<and> fst (DeleteNodes example_url example_service example_manager asg_a
          [\<lparr>NodeName = ''n1'', ProviderID = ''aws://z/i-1''\<rparr>])
       = Some (BelongsToDifferentAsg ''n1'' ''z/a'')"
  by (simp add: eval_defs)

text \<open>
  C2. Once \<open>ScaleUp\<close> has a best option with a positive count, the node info of its sample
  node and the current size of its group, the one request it sends next is
  \<open>SetMigSize\<close> with the estimate itself, lowered to \<open>MaxSize\<close> when it is at or above
  it; the current size is not added. \<open>ScaleUp\<close> then answers true, unless the manager
  refuses that request. For a group of size 1 and maximum 3 and an estimate of 5 the
  size sent is 3.
\<close>

theorem ScaleUp_sets_capped_estimate:
  assumes "unschedulablePods \<noteq> []"
    and "GetNodeGroups E nodes = Inr groups"
    and "collect_options E M unschedulablePods groups ([], {}, h) = (opts, remain, h1)"
    and "BestExpansionOption E opts = Some best"
    and "0 <s GetCount E (estimator best)"
    and "BuildNodeInfoForNode E (GetSampleNode (nodeGroup best)) = Inr nodeInfo"
    and "Estimate E (estimator best) (nodeOf E nodeInfo) = (estimate, report)"
    and "GetCurrentSize M (nodeGroup best) h1 = (Inr currentSize, h2)"
    and "target = (if MaxSize_mig (migConfig (nodeGroup best)) \<le>s estimate
                   then MaxSize_mig (migConfig (nodeGroup best)) else estimate)"
  shows "fst (snd (ScaleUp E M unschedulablePods nodes h))
           = h2 @ [SetMigSize (migConfig (nodeGroup best)) target]
     \<and> fst (ScaleUp E M unschedulablePods nodes h)
           = (case setMigSize M h2 (migConfig (nodeGroup best)) target of
                None \<Rightarrow> Inr True
              | Some e \<Rightarrow> Inl (FailedToSetMigSize (BackendError e)))"
  using assms
  by (cases "setMigSize M h2 (migConfig (nodeGroup best)) target")
     (simp_all add: ScaleUp_def resize_best_def SetSize_def capped_def)

theorem ScaleUp_sets_capped_estimate_witness:
  "GetCurrentSize example_gce example_group [GetMigSize broken_mig, GetMigSize example_mig]
     = (Inr 1, [GetMigSize broken_mig, GetMigSize example_mig, GetMigSize example_mig])
   \<and> Estimate example_collaborators [0] (sampleNode example_group) = (5, [])
   \<and> MaxSize_mig example_mig = 3
   \<and> fst (snd (ScaleUp example_collaborators example_gce [0::nat] [] []))
     = [GetMigSize broken_mig, GetMigSize example_mig, GetMigSize example_mig,
        SetMigSize example_mig 3]
   \<and> fst (ScaleUp example_collaborators example_gce [0::nat] [] []) = Inr True"
proof -
  let ?best = "\<lparr>nodeGroup = example_group, estimator = [0::nat]\<rparr>"
  have h1: "[0::nat] \<noteq> []" by simp
  have h2: "GetNodeGroups example_collaborators [] = Inr [broken_group, example_group]"
    by (simp add: example_collaborators_def)
  have h3: "collect_options example_collaborators example_gce [0] [broken_group, example_group]
              ([], {}, []) = ([?best], {}, [GetMigSize broken_mig, GetMigSize example_mig])"
    by (simp add: gce_defs)
  have h4: "BestExpansionOption example_collaborators [?best] = Some ?best"
    by (simp add: example_collaborators_def)
  have h5: "0 <s GetCount example_collaborators (estimator ?best)"
    by (simp add: example_collaborators_def word_sless_alt)
  have h6: "BuildNodeInfoForNode example_collaborators (GetSampleNode (nodeGroup ?best))
              = Inr (sampleNode example_group)"
    by (simp add: example_collaborators_def GetSampleNode_def)
  have h7: "Estimate example_collaborators (estimator ?best)
              (nodeOf example_collaborators (sampleNode example_group)) = (5, [])"
    by (simp add: example_collaborators_def)
  have h8: "GetCurrentSize example_gce (nodeGroup ?best)
              [GetMigSize broken_mig, GetMigSize example_mig]
              = (Inr 1, [GetMigSize broken_mig, GetMigSize example_mig, GetMigSize example_mig])"
    by (simp add: gce_defs)
  have h9: "(3::int64) = (if MaxSize_mig (migConfig (nodeGroup ?best)) \<le>s 5
                          then MaxSize_mig (migConfig (nodeGroup ?best)) else 5)"
    by (simp add: example_group_def example_mig_def word_sle_eq)
  have set_ok: "setMigSize example_gce
       [GetMigSize broken_mig, GetMigSize example_mig, GetMigSize example_mig] example_mig 3 = None"
    by (simp add: example_gce_def)
  have mig: "migConfig example_group = example_mig" by (simp add: example_group_def)
  from ScaleUp_sets_capped_estimate [OF h1 h2 h3 h4 h5 h6 h7 h8 h9] h7 h8 set_ok mig
  show ?thesis by (simp add: example_mig_def example_collaborators_def)
qed

text \<open>
  C3. The claim says that a reference in a configured zone which is still missing after
  a successful refresh is reported as unknown without an error. The code returns an
  error there (\<open>does not belong to any configured ASG\<close>): with the service answering
  every request and listing no member, the refresh succeeds and the lookup of
  \<open>(z, i-9)\<close> is an error.
\<close>

theorem GetAsgForInstance_unknown_is_error:
  "fst (regenerateCache example_service example_manager) = Inr ()
   \<and> asgCache (snd (regenerateCache example_service example_manager))
        \<lparr>Zone = ''z'', Name = ''i-9''\<rparr> = None
   \<and> fst (GetAsgForInstance example_service example_manager \<lparr>Zone = ''z'', Name = ''i-9''\<rparr>)
       = Inl (NotInAnyConfiguredAsg \<lparr>Zone = ''z'', Name = ''i-9''\<rparr>)"
  by (simp add: eval_defs)

text \<open>
  C3, as the code has it. A lookup that misses the cache refreshes once when some
  registered group lies in the reference's zone. A failed refresh gives the error
  \<open>LookupFailed\<close> (a panic stays a panic) and leaves groups and cache as they were;
  after a successful one the
  reference is found, or the lookup fails with the other error,
  \<open>NotInAnyConfiguredAsg\<close>. Only a reference in no registered group's zone is unknown
  without an error, and without any request to the service.
\<close>

theorem GetAsgForInstance_miss:
  assumes "asgCache m ref = None"
  shows "GetAsgForInstance S m ref =
     (if \<exists>a\<in>set (asgs m). Zone (config a) = Zone ref
      then (case regenerateCache S m of
              (Inl e, m') \<Rightarrow>
                (Inl (if e = RuntimePanic then RuntimePanic else LookupFailed ref e),
                 m\<lparr>calls := calls m'\<rparr>)
            | (Inr u, m') \<Rightarrow>
                (case asgCache m' ref of
                   Some cfg \<Rightarrow> (Inr (Some cfg), m')
                 | None \<Rightarrow> (Inl (NotInAnyConfiguredAsg ref), m')))
      else (Inr None, m))"
proof -
  obtain r m' where rc: "regenerateCache S m = (r, m')"
    by (cases "regenerateCache S m") auto
  show ?thesis
  proof (cases r)
    case (Inl e)
    with rc have "m' = m\<lparr>calls := calls m'\<rparr>" by (simp add: regenerateCache_error_state)
    with rc Inl assms show ?thesis
      by (simp add: GetAsgForInstance_def lookup_after_miss_flat)
  next
    case (Inr u)
    with rc assms show ?thesis
      by (simp add: GetAsgForInstance_def lookup_after_miss_flat)
  qed
qed

theorem GetAsgForInstance_miss_witness:
  "asgCache example_manager \<lparr>Zone = ''z'', Name = ''i-9''\<rparr> = None
   \<and> GetAsgForInstance flaky_service example_manager \<lparr>Zone = ''z'', Name = ''i-9''\<rparr>
       = (Inl (LookupFailed \<lparr>Zone = ''z'', Name = ''i-9''\<rparr> (BackendError ''unavailable'')),
          example_manager\<lparr>calls := [DescribeAutoScalingGroups [],
             DescribeAutoScalingInstances ''i-7'', DescribeAutoScalingGroups []]\<rparr>)
   \<and> GetAsgForInstance flaky_service example_manager \<lparr>Zone = ''y'', Name = ''i-9''\<rparr>
       = (Inr None, example_manager)"
  using GetAsgForInstance_miss [of example_manager "\<lparr>Zone = ''z'', Name = ''i-9''\<rparr>" flaky_service]
    GetAsgForInstance_miss [of example_manager "\<lparr>Zone = ''y'', Name = ''i-9''\<rparr>" flaky_service]
  by (simp add: eval_defs)

text \<open>
  C4. A refresh only adds requests and never changes the registered groups. If one of its
  requests is not answered (an error, an empty answer, an instance without zone) it
  returns an error, and whenever it returns an error the cache is the one from before.
  When it succeeds, the requests it sent are those of a complete refresh and the cache is
  exactly the map of the members listed in their answers: one request for every
  registered group, one for every member listed, each member mapped to the group that
  listed it, and nothing else. The background refresh leaves the same cache as
  \<open>regenerateCache\<close>, and after a lookup the cache is either untouched or the one such a
  refresh leaves.
\<close>

theorem regenerateCache_all_or_nothing:
  assumes "regenerateCache S m = (r, m')"
    and "new = drop (length (calls m)) (calls m')"
  shows "asgs m' = asgs m
    \<and> calls m' = calls m @ new
    \<and> (\<not> answered S (calls m) new \<longrightarrow> (\<exists>e. r = Inl e))
    \<and> ((\<exists>e. r = Inl e) \<longrightarrow> asgCache m' = asgCache m)
    \<and> (r = Inr () \<longrightarrow> snapshot S (asgs m) None [] (calls m) new = Some (asgCache m'))
    \<and> asgCache (regenerateCacheIgnoreError S m) = asgCache m'
    \<and> (asgCache (snd (GetAsgForInstance S m ref)) = asgCache m
        \<or> asgCache (snd (GetAsgForInstance S m ref)) = asgCache m')"
proof -
  have a: "asgs m' = asgs m" using assms(1) by (rule regenerateCache_keeps_asgs)
  from regenerateCache_requests [OF assms(1)] assms(2)
  have b: "calls m' = calls m @ new" by auto
  have e: "r = Inr () \<longrightarrow> snapshot S (asgs m) None [] (calls m) new = Some (asgCache m')"
  proof
    assume "r = Inr ()"
    with assms(1) have "regenerateCache S m = (Inr (), m')" by simp
    from regenerateCache_snapshot [OF this] obtain new' where
      "calls m' = calls m @ new'"
      "snapshot S (asgs m) None [] (calls m) new' = Some (asgCache m')" by blast
    with b show "snapshot S (asgs m) None [] (calls m) new = Some (asgCache m')" by simp
  qed
  have c: "\<not> answered S (calls m) new \<longrightarrow> (\<exists>e. r = Inl e)"
  proof
    assume n: "\<not> answered S (calls m) new"
    show "\<exists>e. r = Inl e"
    proof (cases r)
      case (Inl e)
      then show ?thesis by blast
    next
      case (Inr u)
      with e have "snapshot S (asgs m) None [] (calls m) new = Some (asgCache m')" by simp
      then have "answered S (calls m) new" by (rule snapshot_answered)
      with n show ?thesis by simp
    qed
  qed
  have d: "(\<exists>e. r = Inl e) \<longrightarrow> asgCache m' = asgCache m"
    using assms(1) regenerateCache_error_keeps by blast
  have f: "asgCache (regenerateCacheIgnoreError S m) = asgCache m'"
    using assms(1) by (simp add: regenerateCacheIgnoreError_def)
  have g: "asgCache (snd (GetAsgForInstance S m ref)) = asgCache m
        \<or> asgCache (snd (GetAsgForInstance S m ref)) = asgCache m'"
  proof (cases "asgCache m ref")
    case None
    obtain r2 m2 where l: "lookup_after_miss S m ref (asgs m) = (r2, m2)"
      by (cases "lookup_after_miss S m ref (asgs m)") auto
    from lookup_after_miss_cache [OF l] assms(1) None l show ?thesis
      by (auto simp: GetAsgForInstance_def)
  next
    case (Some cfg)
    then show ?thesis by (simp add: GetAsgForInstance_def)
  qed
  from a b c d e f g show ?thesis by blast
qed

theorem regenerateCache_all_or_nothing_witness:
  "regenerateCache flaky_service example_manager
     = (Inl (BackendError ''unavailable''),
        example_manager\<lparr>calls := [DescribeAutoScalingGroups [],
             DescribeAutoScalingInstances ''i-7'', DescribeAutoScalingGroups []]\<rparr>)
   \<and> \<not> answered flaky_service []
         [DescribeAutoScalingGroups [], DescribeAutoScalingInstances ''i-7'',
          DescribeAutoScalingGroups []]
   \<and> asgCache (snd (regenerateCache flaky_service example_manager)) = asgCache example_manager
   \<and> fst (regenerateCache stocked_service example_manager) = Inr ()
   \<and> snapshot stocked_service (asgs example_manager) None [] []
         [DescribeAutoScalingGroups [], DescribeAutoScalingInstances ''i-7'',
          DescribeAutoScalingInstances ''i-8'', DescribeAutoScalingGroups []]
       = Some (asgCache (snd (regenerateCache stocked_service example_manager)))
   \<and> asgCache (snd (regenerateCache stocked_service example_manager))
       = [\<lparr>Zone = ''z'', Name = ''i-7''\<rparr> \<mapsto> asg_a, \<lparr>Zone = ''z'', Name = ''i-8''\<rparr> \<mapsto> asg_a]"
proof -
  let ?t1 = "[DescribeAutoScalingGroups [], DescribeAutoScalingInstances ''i-7'',
             DescribeAutoScalingGroups []]"
  let ?t2 = "[DescribeAutoScalingGroups [], DescribeAutoScalingInstances ''i-7'',
          DescribeAutoScalingInstances ''i-8'', DescribeAutoScalingGroups []]"
  let ?c2 = "[\<lparr>Zone = ''z'', Name = ''i-7''\<rparr> \<mapsto> asg_a, \<lparr>Zone = ''z'', Name = ''i-8''\<rparr> \<mapsto> asg_a]"
  have f: "regenerateCache flaky_service example_manager
     = (Inl (BackendError ''unavailable''), example_manager\<lparr>calls := ?t1\<rparr>)"
    by (simp add: refresh_defs)
  have f2: "?t1 = drop (length (calls example_manager)) (calls (example_manager\<lparr>calls := ?t1\<rparr>))"
    by (simp add: example_manager_def)
  have na: "\<not> answered flaky_service [] ?t1"
    by (simp add: usable_def flaky_service_def)
  have s: "regenerateCache stocked_service example_manager
     = (Inr (), example_manager\<lparr>asgCache := ?c2, calls := ?t2\<rparr>)"
    by (simp add: refresh_defs)
  have s2: "?t2 = drop (length (calls example_manager))
                    (calls (example_manager\<lparr>asgCache := ?c2, calls := ?t2\<rparr>))"
    by (simp add: example_manager_def)
  have c: "calls example_manager = []" by (simp add: example_manager_def)
  from regenerateCache_all_or_nothing [OF f f2] regenerateCache_all_or_nothing [OF s s2] f s na c
  show ?thesis by simp
qed

text \<open>
  C5. \<open>buildAsg\<close> returns a group exactly for the strings \<open>min:max:id\<close> whose first two
  fields hold no colon and are integers for \<open>strconv.Atoi\<close>, with \<open>1 \<le> min \<le> max\<close>, and
  whose rest is accepted by \<open>ParseAsgUrl\<close>; the group has these bounds and the parsed
  zone and name. Every other string gives one of the six configuration errors.
\<close>

theorem buildAsg_iff:
  "(buildAsg parseUrl a val = Inr asg \<longleftrightarrow>
     (\<exists>t0 t1 t2 mn mx z n.
        val = t0 @ CHR '':'' # t1 @ CHR '':'' # t2
        \<and> CHR '':'' \<notin> set t0 \<and> CHR '':'' \<notin> set t1
        \<and> Atoi t0 = Inr mn \<and> Atoi t1 = Inr mx \<and> 1 \<le>s mn \<and> mn \<le>s mx
        \<and> parseUrl t2 = Inr (z, n)
        \<and> asg = \<lparr>Zone = z, Name = n, addr = a, minSize = mn, maxSize = mx\<rparr>))
   \<and> (\<forall>e. buildAsg parseUrl a val = Inl e \<longrightarrow>
         e = WrongNodesConfiguration val \<or> e = MinSizeMustBePositive
         \<or> e = MaxSizeLessThanMinSize
         \<or> (\<exists>t. e = FailedToSetMinSize t) \<or> (\<exists>t. e = FailedToSetMaxSize t)
         \<or> (\<exists>t e'. e = FailedToParseAsgUrl t e'))"
proof (intro conjI)
  show "buildAsg parseUrl a val = Inr asg \<longleftrightarrow>
     (\<exists>t0 t1 t2 mn mx z n.
        val = t0 @ CHR '':'' # t1 @ CHR '':'' # t2
        \<and> CHR '':'' \<notin> set t0 \<and> CHR '':'' \<notin> set t1
        \<and> Atoi t0 = Inr mn \<and> Atoi t1 = Inr mx \<and> 1 \<le>s mn \<and> mn \<le>s mx
        \<and> parseUrl t2 = Inr (z, n)
        \<and> asg = \<lparr>Zone = z, Name = n, addr = a, minSize = mn, maxSize = mx\<rparr>)"
    (is "?L \<longleftrightarrow> ?R")
  proof
    assume L: ?L
    then obtain t0 t1 t2 where sp: "SplitN val CHR '':'' 3 = [t0, t1, t2]"
      using SplitN_three_cases [of val "CHR '':''"] by (auto simp: buildAsg_def)
    from L sp obtain mn where mn: "Atoi t0 = Inr mn" "\<not> mn \<le>s 0"
      by (cases "Atoi t0") (auto simp: buildAsg_def split: if_splits)
    from L sp mn obtain mx where mx: "Atoi t1 = Inr mx" "\<not> mx <s mn"
      by (cases "Atoi t1") (auto simp: buildAsg_def split: if_splits)
    from L sp mn mx obtain z n where zn: "parseUrl t2 = Inr (z, n)"
      by (cases "parseUrl t2") (auto simp: buildAsg_def)
    from L sp mn mx zn have "asg = \<lparr>Zone = z, Name = n, addr = a, minSize = mn, maxSize = mx\<rparr>"
      by (auto simp: buildAsg_def)
    moreover from sp have "val = t0 @ CHR '':'' # t1 @ CHR '':'' # t2
        \<and> CHR '':'' \<notin> set t0 \<and> CHR '':'' \<notin> set t1" by (simp add: SplitN_three)
    moreover from mn have "1 \<le>s mn" by (simp add: sle_one_iff)
    moreover from mx have "mn \<le>s mx" by (simp add: signed.not_less)
    ultimately show ?R using mn mx zn by blast
  next
    assume ?R
    then obtain t0 t1 t2 mn mx z n where r:
      "val = t0 @ CHR '':'' # t1 @ CHR '':'' # t2" "CHR '':'' \<notin> set t0" "CHR '':'' \<notin> set t1"
      "Atoi t0 = Inr mn" "Atoi t1 = Inr mx" "1 \<le>s mn" "mn \<le>s mx" "parseUrl t2 = Inr (z, n)"
      "asg = \<lparr>Zone = z, Name = n, addr = a, minSize = mn, maxSize = mx\<rparr>" by blast
    from r(1-3) have sp: "SplitN val CHR '':'' 3 = [t0, t1, t2]" by (simp add: SplitN_three)
    from r(6) have "\<not> mn \<le>s 0" by (simp add: sle_one_iff)
    moreover from r(7) have "\<not> mx <s mn" by (simp add: signed.not_less)
    ultimately show ?L using sp r by (simp add: buildAsg_def)
  qed
next
  show "\<forall>e. buildAsg parseUrl a val = Inl e \<longrightarrow>
         e = WrongNodesConfiguration val \<or> e = MinSizeMustBePositive
         \<or> e = MaxSizeLessThanMinSize
         \<or> (\<exists>t. e = FailedToSetMinSize t) \<or> (\<exists>t. e = FailedToSetMaxSize t)
         \<or> (\<exists>t e'. e = FailedToParseAsgUrl t e')"
    by (auto simp: buildAsg_def split: list.splits sum.splits if_splits)
qed

theorem buildAsg_iff_witness:
  "buildAsg example_parseUrl 7 ''1:3:z/a''
     = Inr \<lparr>Zone = ''z'', Name = ''a'', addr = 7, minSize = 1, maxSize = 3\<rparr>
   \<and> buildAsg example_parseUrl 7 ''0:3:z/a'' = Inl MinSizeMustBePositive
   \<and> buildAsg example_parseUrl 7 ''3:1:z/a'' = Inl MaxSizeLessThanMinSize
   \<and> buildAsg example_parseUrl 7 ''x:3:z/a'' = Inl (FailedToSetMinSize ''x'')
   \<and> buildAsg example_parseUrl 7 ''1:3'' = Inl (WrongNodesConfiguration ''1:3'')"
proof -
  have a0: "Atoi ''1'' = Inr 1" and a1: "Atoi ''3'' = Inr 3" and a2: "Atoi ''0'' = Inr 0"
    and a3: "Atoi ''x'' = Inl AtoiSyntax"
    by (simp_all add: Atoi_def is_digit_def decimal_def digit_val_def)
  have p: "example_parseUrl ''z/a'' = Inr (''z'', ''a'')"
    by (simp add: example_parseUrl_def)
  have "\<exists>t0 t1 t2 mn mx z n.
        ''1:3:z/a'' = t0 @ CHR '':'' # t1 @ CHR '':'' # t2
        \<and> CHR '':'' \<notin> set t0 \<and> CHR '':'' \<notin> set t1
        \<and> Atoi t0 = Inr mn \<and> Atoi t1 = Inr mx \<and> 1 \<le>s mn \<and> mn \<le>s mx
        \<and> example_parseUrl t2 = Inr (z, n)
        \<and> \<lparr>Zone = ''z'', Name = ''a'', addr = 7, minSize = 1, maxSize = 3\<rparr>
            = \<lparr>Zone = z, Name = n, addr = 7, minSize = mn, maxSize = mx\<rparr>"
    apply (rule exI [of _ "''1''"])
    apply (rule exI [of _ "''3''"])
    apply (rule exI [of _ "''z/a''"])
    apply (rule exI [of _ 1])
    apply (rule exI [of _ 3])
    apply (rule exI [of _ "''z''"])
    apply (rule exI [of _ "''a''"])
    apply (simp add: a0 a1 p word_sle_eq)
    done
  then have ok: "buildAsg example_parseUrl 7 ''1:3:z/a''
     = Inr \<lparr>Zone = ''z'', Name = ''a'', addr = 7, minSize = 1, maxSize = 3\<rparr>"
    using buildAsg_iff [of example_parseUrl 7 "''1:3:z/a''"
        "\<lparr>Zone = ''z'', Name = ''a'', addr = 7, minSize = 1, maxSize = 3\<rparr>"]
    by blast
  have three: "(3::nat) = Suc (Suc (Suc 0))" by simp
  have "buildAsg example_parseUrl 7 ''0:3:z/a'' = Inl MinSizeMustBePositive"
    by (simp add: buildAsg_def three a2 word_sle_eq)
  moreover have "buildAsg example_parseUrl 7 ''3:1:z/a'' = Inl MaxSizeLessThanMinSize"
    by (simp add: buildAsg_def three a0 a1 word_sle_eq word_sless_alt)
  moreover have "buildAsg example_parseUrl 7 ''x:3:z/a'' = Inl (FailedToSetMinSize ''x'')"
    by (simp add: buildAsg_def three a3)
  moreover have "buildAsg example_parseUrl 7 ''1:3'' = Inl (WrongNodesConfiguration ''1:3'')"
    by (simp add: buildAsg_def three)
  ultimately show ?thesis using ok by simp
qed

text \<open>
  C6. The claim says that for a positive delta and a size that could be read,
  \<open>IncreaseSize\<close> succeeds iff the new size is within the maximum. It returns what the
  service answers to the resize: with the size 2 read, the maximum 3 and delta 1, the
  resize to 3 is sent, the service refuses it, and \<open>IncreaseSize\<close> returns that error.
\<close>

theorem IncreaseSize_backend_refusal:
  "fst (GetAsgSize flaky_service example_manager asg_a) = Inr 2
   \<and> (2::int64) + 1 \<le>s maxSize asg_a
   \<and> IncreaseSize flaky_service example_manager asg_a 1
       = (Some (BackendError ''throttled''),
          example_manager\<lparr>calls := [DescribeAutoScalingGroups ''a'',
                                     SetDesiredCapacity ''a'' 3]\<rparr>)"
  by (simp add: eval_defs)

text \<open>
  C6, as the code has it. A delta of zero or less is refused before any request. For a
  positive delta, a size that could be read, and a sum of the two that is still a 64-bit
  integer, the resize to that sum is sent iff the sum is at most the maximum, and
  \<open>IncreaseSize\<close> returns what the service answers to it; otherwise it returns an error
  and sends no resize. Nothing is said of a sum beyond the 64-bit integers.
\<close>

theorem IncreaseSize_cases:
  "(delta \<le>s 0 \<longrightarrow> IncreaseSize S m asg delta = (Some SizeIncreaseMustBePositive, m))
   \<and> (0 <s delta \<and> GetAsgSize S m asg = (Inr sz, m') \<and> sint sz + sint delta < 2 ^ 63 \<longrightarrow>
        sint (sz + delta) = sint sz + sint delta
        \<and> IncreaseSize S m asg delta =
            (if sint sz + sint delta \<le> sint (maxSize asg)
             then (map_option BackendError (setCapacity S (calls m') (Name asg) (sz + delta)),
                   m'\<lparr>calls := calls m' @ [SetDesiredCapacity (Name asg) (sz + delta)]\<rparr>)
             else (Some (SizeIncreaseTooLarge (sz + delta) (maxSize asg)), m')))"
proof (intro conjI impI)
  assume "delta \<le>s 0"
  then show "IncreaseSize S m asg delta = (Some SizeIncreaseMustBePositive, m)"
    by (simp add: IncreaseSize_def)
next
  assume a: "0 <s delta \<and> GetAsgSize S m asg = (Inr sz, m') \<and> sint sz + sint delta < 2 ^ 63"
  then show "sint (sz + delta) = sint sz + sint delta"
    by (simp add: sint_add_no_overflow)
next
  assume a: "0 <s delta \<and> GetAsgSize S m asg = (Inr sz, m') \<and> sint sz + sint delta < 2 ^ 63"
  then have s: "sint (sz + delta) = sint sz + sint delta"
    by (simp add: sint_add_no_overflow)
  have pos: "\<not> delta \<le>s 0" using a by (simp add: signed.not_le)
  have guard: "maxSize asg <s sz + delta \<longleftrightarrow> \<not> sint sz + sint delta \<le> sint (maxSize asg)"
    using s by (simp add: word_sless_alt not_le)
  show "IncreaseSize S m asg delta =
            (if sint sz + sint delta \<le> sint (maxSize asg)
             then (map_option BackendError (setCapacity S (calls m') (Name asg) (sz + delta)),
                   m'\<lparr>calls := calls m' @ [SetDesiredCapacity (Name asg) (sz + delta)]\<rparr>)
             else (Some (SizeIncreaseTooLarge (sz + delta) (maxSize asg)), m'))"
    using a pos guard
    by (cases "setCapacity S (calls m') (Name asg) (sz + delta)")
       (simp_all add: IncreaseSize_def SetAsgSize_def MaxSize_def sent_def)
qed

theorem IncreaseSize_cases_witness:
  "IncreaseSize example_service example_manager asg_a 1
     = (None, example_manager\<lparr>calls := [DescribeAutoScalingGroups ''a'',
                                         SetDesiredCapacity ''a'' 3]\<rparr>)
   \<and> IncreaseSize example_service example_manager asg_a 2
     = (Some (SizeIncreaseTooLarge 4 3),
        example_manager\<lparr>calls := [DescribeAutoScalingGroups ''a'']\<rparr>)
   \<and> IncreaseSize example_service example_manager asg_a 0
     = (Some SizeIncreaseMustBePositive, example_manager)"
proof -
  let ?m' = "example_manager\<lparr>calls := [DescribeAutoScalingGroups ''a'']\<rparr>"
  have rd: "GetAsgSize example_service example_manager asg_a = (Inr 2, ?m')"
    by (simp add: eval_defs)
  have p1: "0 <s (1::int64)" and p2: "0 <s (2::int64)" and p0: "(0::int64) \<le>s 0"
    by (simp_all add: word_sless_alt word_sle_eq)
  have b1: "sint (2::int64) + sint (1::int64) < 2 ^ 63"
    and b2: "sint (2::int64) + sint (2::int64) < 2 ^ 63" by simp_all
  have le1: "sint (2::int64) + sint (1::int64) \<le> sint (maxSize asg_a)"
    and le2: "\<not> sint (2::int64) + sint (2::int64) \<le> sint (maxSize asg_a)"
    by (simp_all add: asg_a_def)
  from IncreaseSize_cases [of 1 example_service example_manager asg_a 2 ?m'] rd p1 b1 le1
  have "IncreaseSize example_service example_manager asg_a 1
     = (None, example_manager\<lparr>calls := [DescribeAutoScalingGroups ''a'',
                                         SetDesiredCapacity ''a'' 3]\<rparr>)"
    by (simp add: example_service_def asg_a_def)
  moreover
  from IncreaseSize_cases [of 2 example_service example_manager asg_a 2 ?m'] rd p2 b2 le2
  have "IncreaseSize example_service example_manager asg_a 2
     = (Some (SizeIncreaseTooLarge 4 3), ?m')"
    by (simp add: asg_a_def)
  moreover
  from IncreaseSize_cases [of 0 example_service example_manager asg_a 2 ?m'] p0
  have "IncreaseSize example_service example_manager asg_a 0
     = (Some SizeIncreaseMustBePositive, example_manager)"
    by simp
  ultimately show ?thesis by simp
qed

text \<open>
  C7. The references of a list resolve as \<open>DeleteInstances\<close> looks them up, one after the
  other. When two of them resolve to different groups, or one to a group and one to
  none, \<open>DeleteInstances\<close> returns an error, \<open>NotSameAsg\<close> or the error of a lookup that
  failed, and no termination request is sent. Whenever it returns \<open>NotSameAsg\<close>, no
  termination request has been sent.
\<close>

theorem DeleteInstances_mixed_groups:
  "(fst (DeleteInstances S m refs) = Some NotSameAsg \<longrightarrow>
      terminations (calls (snd (DeleteInstances S m refs))) = terminations (calls m))
   \<and> (x \<in> set (fst (resolve_all S m refs)) \<and> y \<in> set (fst (resolve_all S m refs))
        \<and> resolves_to c x \<and> resolves_to d y \<and> c \<noteq> d \<longrightarrow>
      (fst (DeleteInstances S m refs) = Some NotSameAsg
         \<or> (\<exists>e. Inl e \<in> set (fst (resolve_all S m refs))
                \<and> fst (DeleteInstances S m refs) = Some e))
      \<and> terminations (calls (snd (DeleteInstances S m refs))) = terminations (calls m))"
proof (cases refs)
  case Nil
  then show ?thesis by (simp add: DeleteInstances_def)
next
  case (Cons first rest)
  obtain x0 m0 where l: "GetAsgForInstance S m first = (x0, m0)"
    by (cases "GetAsgForInstance S m first") auto
  obtain xs m1 where rest: "resolve_all S m0 rest = (xs, m1)"
    by (cases "resolve_all S m0 rest") auto
  have R: "fst (resolve_all S m refs) = x0 # xs" using Cons l rest by simp
  from GetAsgForInstance_requests [OF l]
  have t0: "terminations (calls m0) = terminations (calls m)"
    by (auto simp: terminations_append)
  show ?thesis
  proof (cases x0)
    case (Inl e)
    with Cons l have "DeleteInstances S m refs = (Some e, m0)"
      by (simp add: DeleteInstances_def)
    with t0 R Inl show ?thesis by auto
  next
    case (Inr g0)
    from l Inr have again: "GetAsgForInstance S m0 first = (Inr g0, m0)"
      by (simp add: GetAsgForInstance_again)
    obtain r2 m2 where cc: "check_common S m0 g0 rest = (r2, m2)"
      by (cases "check_common S m0 g0 rest") auto
    from check_common_requests [OF cc] t0
    have t2: "terminations (calls m2) = terminations (calls m)"
      by (auto simp: terminations_append)
    have whole: "check_common S m0 g0 refs = (r2, m2)"
      using Cons again cc by simp
    show ?thesis
    proof (cases r2)
      case (Some e)
      with Cons l Inr whole have D: "DeleteInstances S m refs = (Some e, m2)"
        by (simp add: DeleteInstances_def)
      from check_common_error [OF cc [unfolded Some]] rest
      have "e = NotSameAsg \<or> Inl e \<in> set xs" by simp
      with D t2 R show ?thesis by auto
    next
      case None
      with Cons l Inr whole have D: "DeleteInstances S m refs = terminate_all S m2 refs"
        by (simp add: DeleteInstances_def)
      from check_common_None [OF cc [unfolded None]] rest
      have "list_all (resolves_to (map_option addr g0)) xs" by simp
      with Inr R have all: "\<forall>v\<in>set (fst (resolve_all S m refs)). resolves_to (map_option addr g0) v"
        by (simp add: list_all_iff resolves_to_def)
      have uniq: "\<And>v a b. resolves_to a v \<Longrightarrow> resolves_to b v \<Longrightarrow> a = b"
        by (auto simp: resolves_to_def split: sum.splits)
      have no_mix: "\<not> (x \<in> set (fst (resolve_all S m refs)) \<and> y \<in> set (fst (resolve_all S m refs))
        \<and> resolves_to c x \<and> resolves_to d y \<and> c \<noteq> d)"
        using all uniq by blast
      have "fst (DeleteInstances S m refs) \<noteq> Some NotSameAsg"
        using D terminate_all_not_mixed by simp
      with no_mix show ?thesis by blast
    qed
  qed
qed

theorem DeleteInstances_mixed_groups_witness:
  "fst (resolve_all moving_service example_manager
          [\<lparr>Zone = ''z'', Name = ''i-9''\<rparr>, \<lparr>Zone = ''z'', Name = ''i-1''\<rparr>])
     = [Inr (Some asg_a), Inr (Some asg_b)]
   \<and> fst (DeleteInstances moving_service example_manager
          [\<lparr>Zone = ''z'', Name = ''i-9''\<rparr>, \<lparr>Zone = ''z'', Name = ''i-1''\<rparr>]) = Some NotSameAsg
   \<and> terminations (calls (snd (DeleteInstances moving_service example_manager
          [\<lparr>Zone = ''z'', Name = ''i-9''\<rparr>, \<lparr>Zone = ''z'', Name = ''i-1''\<rparr>]))) = []"
proof -
  let ?refs = "[\<lparr>Zone = ''z'', Name = ''i-9''\<rparr>, \<lparr>Zone = ''z'', Name = ''i-1''\<rparr>]"
  have R: "fst (resolve_all moving_service example_manager ?refs)
             = [Inr (Some asg_a), Inr (Some asg_b)]"
    by (simp add: refresh_defs)
  have x: "Inr (Some asg_a) \<in> set (fst (resolve_all moving_service example_manager ?refs))"
    and y: "Inr (Some asg_b) \<in> set (fst (resolve_all moving_service example_manager ?refs))"
    unfolding R by simp_all
  have cx: "resolves_to (Some 0) (Inr (Some asg_a))"
    and dy: "resolves_to (Some 1) (Inr (Some asg_b))"
    by (simp_all add: resolves_to_def asg_a_def asg_b_def)
  have ne: "Some (0::nat) \<noteq> Some 1" by simp
  have noerr: "\<not> (\<exists>e. Inl e \<in> set (fst (resolve_all moving_service example_manager ?refs)))"
    unfolding R by simp
  have t: "terminations (calls example_manager) = []"
    by (simp add: terminations_def example_manager_def)
  have "(fst (DeleteInstances moving_service example_manager ?refs) = Some NotSameAsg
         \<or> (\<exists>e. Inl e \<in> set (fst (resolve_all moving_service example_manager ?refs))
                \<and> fst (DeleteInstances moving_service example_manager ?refs) = Some e))
      \<and> terminations (calls (snd (DeleteInstances moving_service example_manager ?refs)))
          = terminations (calls example_manager)"
  proof -
    have prem: "Inr (Some asg_a) \<in> set (fst (resolve_all moving_service example_manager ?refs))
        \<and> Inr (Some asg_b) \<in> set (fst (resolve_all moving_service example_manager ?refs))
        \<and> resolves_to (Some 0) (Inr (Some asg_a)) \<and> resolves_to (Some 1) (Inr (Some asg_b))
        \<and> Some (0::nat) \<noteq> Some 1"
      using x y cx dy ne by (intro conjI)
    show ?thesis
      by (rule mp [OF conjunct2 [OF DeleteInstances_mixed_groups
            [of moving_service example_manager ?refs "Inr (Some asg_a)" "Inr (Some asg_b)"
               "Some 0" "Some 1"]] prem])
  qed
  with noerr t have "fst (DeleteInstances moving_service example_manager ?refs) = Some NotSameAsg
      \<and> terminations (calls (snd (DeleteInstances moving_service example_manager ?refs))) = []"
    by auto
  with R show ?thesis by (simp del: resolve_all.simps)
qed

text \<open>
  C8. With unschedulable pods at hand, a node group for which \<open>IsScaleUpPossible\<close> fails
  or answers false costs one size request and nothing more: whatever its place in the
  list, \<open>ScaleUp\<close> goes on with the groups after it, from the options gathered before
  it, and its result is the one these groups lead to.
\<close>

theorem ScaleUp_skips_failing_group:
  assumes "unschedulablePods \<noteq> []"
    and "GetNodeGroups E nodes = Inr (pre @ g # post)"
    and "collect_options E M unschedulablePods pre ([], {}, h) = (opts, remain, h1)"
    and "IsScaleUpPossible M g h1 = (r, h2)"
    and "r = Inr False \<or> (\<exists>e. r = Inl e)"
  shows "ScaleUp E M unschedulablePods nodes h
           = resize_best E M (collect_options E M unschedulablePods post (opts, remain, h2))
     \<and> h2 = h1 @ [GetMigSize (migConfig g)]"
proof -
  have "collect_options E M unschedulablePods (g # post) (opts, remain, h1)
          = collect_options E M unschedulablePods post (opts, remain, h2)"
    using assms(4,5) by auto
  then have "collect_options E M unschedulablePods (pre @ g # post) ([], {}, h)
          = collect_options E M unschedulablePods post (opts, remain, h2)"
    using assms(3) by (simp add: collect_options_append)
  moreover have "h2 = h1 @ [GetMigSize (migConfig g)]"
    using assms(4) by (auto simp: IsScaleUpPossible_def split: sum.splits if_splits)
  ultimately show ?thesis using assms(1,2) by (simp add: ScaleUp_def)
qed

theorem ScaleUp_skips_failing_group_witness:
  "IsScaleUpPossible example_gce broken_group []
     = (Inl (BackendError ''unavailable''), [GetMigSize broken_mig])
   \<and> ScaleUp example_collaborators example_gce [0::nat] [] []
     = resize_best example_collaborators example_gce
         (collect_options example_collaborators example_gce [0] [example_group]
            ([], {}, [GetMigSize broken_mig]))"
proof -
  have h1: "[0::nat] \<noteq> []" by simp
  have h2: "GetNodeGroups example_collaborators [] = Inr ([] @ broken_group # [example_group])"
    by (simp add: example_collaborators_def)
  have h3: "collect_options example_collaborators example_gce [0::nat] [] ([], {}, [])
              = ([], {}, [])"
    by simp
  have h4: "IsScaleUpPossible example_gce broken_group []
              = (Inl (BackendError ''unavailable''), [GetMigSize broken_mig])"
    by (simp add: IsScaleUpPossible_def example_gce_def broken_group_def broken_mig_def)
  have h5: "Inl (BackendError ''unavailable'') = Inr False
              \<or> (\<exists>e. (Inl (BackendError ''unavailable'') :: error + bool) = Inl e)"
    by simp
  from ScaleUp_skips_failing_group [OF h1 h2 h3 h4 h5] h4 show ?thesis by simp
qed

text \<open>
  C9. The claim says that every string that is not of the shape
  \<open>scheme://<zone>/<instanceName>\<close> is answered with a parse error and that the parser
  never faults. The code slices \<open>id[6:]\<close> before any check: a string of fewer than six
  bytes makes it panic, and a string with another six-byte prefix is accepted.
\<close>

theorem AwsRefFromProviderId_short_panics:
  "AwsRefFromProviderId ''aws:/'' = Inl RuntimePanic
   \<and> AwsRefFromProviderId [] = Inl RuntimePanic
   \<and> AwsRefFromProviderId ''gce://z/n'' = Inr \<lparr>Zone = ''z'', Name = ''n''\<rparr>"
  by (simp add: AwsRefFromProviderId_def Split_def)

text \<open>
  C10. When the references of a list, looked up one after the other, all resolve to one
  group, \<open>DeleteInstances\<close> sends, after the requests of these lookups (none of them a
  termination), one termination request per reference, in list order, up to and
  including the first one the service refuses, nothing else, and returns that refusal, or
  no error when there is none. The references before the refused one have been
  terminated by then. On the empty list it returns at once, the manager untouched.
\<close>

theorem DeleteInstances_same_group:
  assumes "list_all (resolves_to c) (fst (resolve_all S m refs))"
    and "m1 = snd (resolve_all S m refs)"
  shows "DeleteInstances S m refs =
     (case dropWhile (\<lambda>x. x = None) (terminate_responses S (calls m1) refs) of
        [] \<Rightarrow> None
      | x # _ \<Rightarrow> map_option BackendError x,
      m1\<lparr>calls := calls m1 @ map (\<lambda>r. TerminateInstanceInAutoScalingGroup (Name r))
           (take (Suc (length (takeWhile (\<lambda>x. x = None) (terminate_responses S (calls m1) refs)))) refs)\<rparr>)
     \<and> terminations (calls m1) = terminations (calls m)
     \<and> DeleteInstances S m [] = (None, m)"
proof (cases refs)
  case Nil
  with assms(2) show ?thesis by (simp add: DeleteInstances_def terminate_responses_def)
next
  case (Cons first rest)
  obtain x0 m0 where l: "GetAsgForInstance S m first = (x0, m0)"
    by (cases "GetAsgForInstance S m first") auto
  obtain xs m2 where rest: "resolve_all S m0 rest = (xs, m2)"
    by (cases "resolve_all S m0 rest") auto
  from assms(2) Cons l rest have m1: "m1 = m2" by simp
  from assms(1) Cons l rest have x0: "resolves_to c x0" and xs: "list_all (resolves_to c) xs"
    by simp_all
  from x0 obtain g0 where g0: "x0 = Inr g0" "map_option addr g0 = c"
    by (cases x0) (auto simp: resolves_to_def)
  from l g0 have again: "GetAsgForInstance S m0 first = (Inr g0, m0)"
    by (simp add: GetAsgForInstance_again)
  from xs g0 rest have "list_all (resolves_to (map_option addr g0)) (fst (resolve_all S m0 rest))"
    by simp
  from check_common_passes [OF this] rest have cc: "check_common S m0 g0 rest = (None, m2)"
    by simp
  from check_common_requests [OF cc] GetAsgForInstance_requests [OF l]
  have t: "terminations (calls m2) = terminations (calls m)"
    by (auto simp: terminations_append)
  have "check_common S m0 g0 refs = (None, m2)" using Cons again cc by simp
  with Cons l g0 have "DeleteInstances S m refs = terminate_all S m2 refs"
    by (simp add: DeleteInstances_def)
  with m1 t show ?thesis by (simp add: terminate_all_trace DeleteInstances_def)
qed

theorem DeleteInstances_same_group_witness:
  "fst (resolve_all stocked_service example_manager
          [\<lparr>Zone = ''z'', Name = ''i-7''\<rparr>, \<lparr>Zone = ''z'', Name = ''i-8''\<rparr>])
     = [Inr (Some asg_a), Inr (Some asg_a)]
   \<and> fst (DeleteInstances stocked_service example_manager
          [\<lparr>Zone = ''z'', Name = ''i-7''\<rparr>, \<lparr>Zone = ''z'', Name = ''i-8''\<rparr>])
     = Some (BackendError ''unavailable'')
   \<and> calls (snd (DeleteInstances stocked_service example_manager
          [\<lparr>Zone = ''z'', Name = ''i-7''\<rparr>, \<lparr>Zone = ''z'', Name = ''i-8''\<rparr>]))
     = [DescribeAutoScalingGroups [], DescribeAutoScalingInstances ''i-7'',
        DescribeAutoScalingInstances ''i-8'', DescribeAutoScalingGroups [],
        TerminateInstanceInAutoScalingGroup ''i-7'', TerminateInstanceInAutoScalingGroup ''i-8'']
   \<and> DeleteInstances example_service example_manager
          [\<lparr>Zone = ''z'', Name = ''i-1''\<rparr>, \<lparr>Zone = ''z'', Name = ''i-3''\<rparr>,
           \<lparr>Zone = ''z'', Name = ''i-4''\<rparr>]
     = (None,
        example_manager\<lparr>calls := [TerminateInstanceInAutoScalingGroup ''i-1'',
                                   TerminateInstanceInAutoScalingGroup ''i-3'',
                                   TerminateInstanceInAutoScalingGroup ''i-4'']\<rparr>)"
proof -
  let ?refs = "[\<lparr>Zone = ''z'', Name = ''i-7''\<rparr>, \<lparr>Zone = ''z'', Name = ''i-8''\<rparr>]"
  let ?t = "[DescribeAutoScalingGroups [], DescribeAutoScalingInstances ''i-7'',
        DescribeAutoScalingInstances ''i-8'', DescribeAutoScalingGroups []]"
  let ?c = "[\<lparr>Zone = ''z'', Name = ''i-7''\<rparr> \<mapsto> asg_a, \<lparr>Zone = ''z'', Name = ''i-8''\<rparr> \<mapsto> asg_a]"
  let ?m1 = "example_manager\<lparr>asgCache := ?c, calls := ?t\<rparr>"
  have R: "resolve_all stocked_service example_manager ?refs
             = ([Inr (Some asg_a), Inr (Some asg_a)], ?m1)"
    by (simp add: refresh_defs)
  have h1: "list_all (resolves_to (Some 0)) (fst (resolve_all stocked_service example_manager ?refs))"
    unfolding R by (simp add: resolves_to_def asg_a_def)
  have h2: "?m1 = snd (resolve_all stocked_service example_manager ?refs)"
    unfolding R by simp
  have two: "[0..<2] = [0, 1]" by (simp add: upt_rec)
  have r1: "terminate_responses stocked_service (calls ?m1) ?refs = [None, Some ''unavailable'']"
    by (simp add: terminate_responses_def stocked_service_def two)
  from DeleteInstances_same_group [OF h1 h2] r1
  have a: "DeleteInstances stocked_service example_manager ?refs
     = (Some (BackendError ''unavailable''),
        ?m1\<lparr>calls := ?t @ [TerminateInstanceInAutoScalingGroup ''i-7'',
                             TerminateInstanceInAutoScalingGroup ''i-8'']\<rparr>)"
    by simp
  let ?refs3 = "[\<lparr>Zone = ''z'', Name = ''i-1''\<rparr>, \<lparr>Zone = ''z'', Name = ''i-3''\<rparr>,
           \<lparr>Zone = ''z'', Name = ''i-4''\<rparr>]"
  have R3: "resolve_all example_service example_manager ?refs3
             = ([Inr (Some asg_a), Inr (Some asg_a), Inr (Some asg_a)], example_manager)"
    by (simp add: refresh_defs)
  have g1: "list_all (resolves_to (Some 0)) (fst (resolve_all example_service example_manager ?refs3))"
    unfolding R3 by (simp add: resolves_to_def asg_a_def)
  have g2: "example_manager = snd (resolve_all example_service example_manager ?refs3)"
    unfolding R3 by simp
  have three: "[0..<3] = [0, 1, 2]" by (simp add: upt_rec)
  have r3: "terminate_responses example_service (calls example_manager) ?refs3
              = [None, None, None]"
    by (simp add: terminate_responses_def example_service_def three)
  have c: "calls example_manager = []" by (simp add: example_manager_def)
  from DeleteInstances_same_group [OF g1 g2] r3 c
  have b: "DeleteInstances example_service example_manager ?refs3
     = (None,
        example_manager\<lparr>calls := [TerminateInstanceInAutoScalingGroup ''i-1'',
                                   TerminateInstanceInAutoScalingGroup ''i-3'',
                                   TerminateInstanceInAutoScalingGroup ''i-4'']\<rparr>)"
    by simp
  from a b show ?thesis unfolding R by simp
qed

end
